theory Spec2Isabelle
  imports Complex_Main "HOL-Library.Log_Nat"
begin

section \<open>JavaScript numbers\<close>

text \<open>
  Every \<^verbatim>\<open>number\<close> of the program is an IEEE-754 binary64 value, and every arithmetic
  operator rounds its exact result to the nearest such value, ties to the even significand.
  The scoring function multiplies by \<^verbatim>\<open>0.35\<close> and \<^verbatim>\<open>0.30\<close>, which are not binary
  fractions, and ends in \<^verbatim>\<open>Math.round\<close>, so the rounding of the intermediate results
  decides the returned integer whenever the exact weighted sum is a half-integer:
  \<^verbatim>\<open>90 * 0.35\<close> is \<^verbatim>\<open>31.499999999999996\<close> in the program, not 31.5. The model therefore
  keeps the rounding. A finite number is the rational it denotes; the two infinities and NaN are
  separate constructors. The sign of a zero is not tracked: it shows only in a division by zero,
  in \<^verbatim>\<open>Object.is\<close> and in printing, and the code below divides by a parameter it has
  tested to be positive and by the literals 6, 120 and 60 only.
\<close>

datatype number = Num rat | PosInf | NegInf | NaN

definition pow2 :: "int \<Rightarrow> rat" where
  "pow2 k = (if 0 \<le> k then 2 ^ nat k else 1 / 2 ^ nat (- k))"

text \<open>The binary exponent of a non-zero rational: \<open>pow2 (ilog2 x) \<le> \<bar>x\<bar> < pow2 (ilog2 x + 1)\<close>.\<close>

definition ilog2 :: "rat \<Rightarrow> int" where
  "ilog2 x = (if 1 \<le> \<bar>x\<bar> then bitlen \<lfloor>\<bar>x\<bar>\<rfloor> - 1
              else - bitlen (\<lceil>1 / \<bar>x\<bar>\<rceil> - 1))"

text \<open>Rounding to the nearest integer, a tie to the even one.\<close>

definition rne :: "rat \<Rightarrow> int" where
  "rne x = (let f = \<lfloor>x\<rfloor>; d = x - of_int f
            in if d < 1 / 2 then f else if 1 / 2 < d then f + 1
               else if even f then f else f + 1)"

text \<open>
  Rounding to binary64 precision: 53 significant bits, so the spacing of the values around
  \<open>x\<close> is \<open>pow2 (ilog2 x - 52)\<close>, and never finer than \<open>pow2 (- 1074)\<close>, the spacing of the
  subnormal numbers. A rounded magnitude of \<open>2 ^ 1024\<close> or more, that is one whose binary
  exponent exceeds 1023, overflows to an infinity.
\<close>

definition quantum :: "rat \<Rightarrow> rat" where
  "quantum x = pow2 (max (ilog2 x - 52) (- 1074))"

definition rnd :: "rat \<Rightarrow> rat" where
  "rnd x = (if x = 0 then 0 else of_int (rne (x / quantum x)) * quantum x)"

definition binary64 :: "rat \<Rightarrow> number" where
  "binary64 x = (let r = rnd x
                 in if r \<noteq> 0 \<and> 1024 \<le> ilog2 r then (if 0 < r then PosInf else NegInf)
                    else Num r)"

text \<open>The operators \<^verbatim>\<open>+ - * /\<close> of ECMAScript on numbers.\<close>

fun num_neg :: "number \<Rightarrow> number" where
  "num_neg (Num a) = Num (- a)"
| "num_neg PosInf = NegInf"
| "num_neg NegInf = PosInf"
| "num_neg NaN = NaN"

fun num_add :: "number \<Rightarrow> number \<Rightarrow> number" where
  "num_add NaN _ = NaN"
| "num_add _ NaN = NaN"
| "num_add (Num a) (Num b) = binary64 (a + b)"
| "num_add PosInf NegInf = NaN"
| "num_add NegInf PosInf = NaN"
| "num_add PosInf _ = PosInf"
| "num_add NegInf _ = NegInf"
| "num_add (Num a) b = b"

definition num_sub :: "number \<Rightarrow> number \<Rightarrow> number" where
  "num_sub a b = num_add a (num_neg b)"

definition inf_of_sign :: "bool \<Rightarrow> number" where
  "inf_of_sign negative = (if negative then NegInf else PosInf)"

fun is_negative :: "number \<Rightarrow> bool" where
  "is_negative (Num a) = (a < 0)"
| "is_negative NegInf = True"
| "is_negative _ = False"

fun num_mul :: "number \<Rightarrow> number \<Rightarrow> number" where
  "num_mul NaN _ = NaN"
| "num_mul _ NaN = NaN"
| "num_mul (Num a) (Num b) = binary64 (a * b)"
| "num_mul (Num a) b = (if a = 0 then NaN else inf_of_sign (is_negative (Num a) \<noteq> is_negative b))"
| "num_mul a (Num b) = (if b = 0 then NaN else inf_of_sign (is_negative a \<noteq> is_negative (Num b)))"
| "num_mul a b = inf_of_sign (is_negative a \<noteq> is_negative b)"

fun num_div :: "number \<Rightarrow> number \<Rightarrow> number" where
  "num_div NaN _ = NaN"
| "num_div _ NaN = NaN"
| "num_div (Num a) (Num b) =
     (if b = 0 then (if a = 0 then NaN else inf_of_sign (a < 0)) else binary64 (a / b))"
| "num_div (Num a) b = Num 0"
| "num_div a (Num b) = inf_of_sign (is_negative a \<noteq> is_negative (Num b))"
| "num_div a b = NaN"

text \<open>The comparisons \<^verbatim>\<open>===\<close>, \<^verbatim>\<open><\<close> and \<^verbatim>\<open>>\<close>: each is false when an operand is NaN.\<close>

fun strict_eq :: "number \<Rightarrow> number \<Rightarrow> bool" where
  "strict_eq NaN _ = False"
| "strict_eq _ NaN = False"
| "strict_eq a b = (a = b)"

fun num_less :: "number \<Rightarrow> number \<Rightarrow> bool" where
  "num_less NaN _ = False"
| "num_less _ NaN = False"
| "num_less (Num a) (Num b) = (a < b)"
| "num_less PosInf _ = False"
| "num_less _ NegInf = False"
| "num_less NegInf _ = True"
| "num_less _ PosInf = True"

definition num_greater :: "number \<Rightarrow> number \<Rightarrow> bool" where
  "num_greater a b = num_less b a"

text \<open>\<^verbatim>\<open>Math.min\<close>, \<^verbatim>\<open>Math.max\<close> and \<^verbatim>\<open>Math.round\<close> (nearest integer, a tie upwards).\<close>

fun Math_min :: "number \<Rightarrow> number \<Rightarrow> number" where
  "Math_min NaN _ = NaN"
| "Math_min _ NaN = NaN"
| "Math_min a b = (if num_less b a then b else a)"

fun Math_max :: "number \<Rightarrow> number \<Rightarrow> number" where
  "Math_max NaN _ = NaN"
| "Math_max _ NaN = NaN"
| "Math_max a b = (if num_less a b then b else a)"

fun Math_round :: "number \<Rightarrow> number" where
  "Math_round (Num a) = Num (of_int \<lfloor>a + 1 / 2\<rfloor>)"
| "Math_round a = a"

text \<open>A decimal literal of the source text denotes the nearest binary64 value.\<close>

definition literal :: "rat \<Rightarrow> number" where
  "literal x = binary64 x"

text \<open>A non-negative integer as a number.\<close>

definition num :: "nat \<Rightarrow> number" where
  "num n = Num (of_nat n)"

section \<open>The efficiency calculator\<close>

record EfficiencyParams =
  tasksPlanned :: "number option"
  tasksCompleted :: number
  pomodorosSessions :: number
  focusTime :: number

text \<open>The three sub-scores, named as the local constants of the source are. A primed name is
  the destructured parameter of that name.\<close>

definition completionRate :: "number \<Rightarrow> number \<Rightarrow> number" where
  "completionRate tasksPlanned' tasksCompleted' =
     Math_min (Num 100) (num_mul (num_div tasksCompleted' tasksPlanned') (Num 100))"

definition taskScore :: "number \<Rightarrow> number" where
  "taskScore tasksCompleted' = Math_min (Num 100) (num_mul tasksCompleted' (Num 20))"

definition pomodoroScore :: "number \<Rightarrow> number" where
  "pomodoroScore pomodorosSessions' =
     (let idealRange_min = Num 6; idealRange_max = Num 10; pomodoroScore = Num 100
      in if num_less pomodorosSessions' idealRange_min
         then num_mul (num_div pomodorosSessions' idealRange_min) (Num 100)
         else if num_greater pomodorosSessions' idealRange_max
         then Math_max (Num 70)
                (num_sub (Num 100) (num_mul (num_sub pomodorosSessions' idealRange_max) (Num 5)))
         else pomodoroScore)"

definition focusScore :: "number \<Rightarrow> number" where
  "focusScore focusTime' =
     (let idealRange_min = Num 120; idealRange_max = Num 360; focusScore = Num 100
      in if num_less focusTime' idealRange_min
         then num_mul (num_div focusTime' idealRange_min) (Num 100)
         else if num_greater focusTime' idealRange_max
         then Math_max (Num 80)
                (num_sub (Num 100)
                   (num_mul (num_div (num_sub focusTime' idealRange_max) (Num 60)) (Num 3)))
         else focusScore)"

text \<open>The weighted sum before the final clamp and rounding: the variable \<^verbatim>\<open>efficiency\<close>.\<close>

definition efficiency_sum :: "number \<Rightarrow> number \<Rightarrow> number \<Rightarrow> number \<Rightarrow> number" where
  "efficiency_sum tasksPlanned' tasksCompleted' pomodorosSessions' focusTime' =
     (let efficiency = Num 0;
          efficiency =
            (if num_greater tasksCompleted' (Num 0)
             then (if num_greater tasksPlanned' (Num 0)
                   then num_add efficiency
                          (num_mul (completionRate tasksPlanned' tasksCompleted') (literal (35 / 100)))
                   else num_add efficiency
                          (num_mul (taskScore tasksCompleted') (literal (35 / 100))))
             else efficiency);
          efficiency =
            (if num_greater pomodorosSessions' (Num 0)
             then num_add efficiency
                    (num_mul (pomodoroScore pomodorosSessions') (literal (35 / 100)))
             else efficiency);
          efficiency =
            (if num_greater focusTime' (Num 0)
             then num_add efficiency (num_mul (focusScore focusTime') (literal (30 / 100)))
             else efficiency)
      in efficiency)"

definition calculateEfficiency :: "EfficiencyParams \<Rightarrow> number" where
  "calculateEfficiency params =
     (let tasksPlanned' = (case tasksPlanned params of None \<Rightarrow> Num 0 | Some v \<Rightarrow> v);
          tasksCompleted' = tasksCompleted params;
          pomodorosSessions' = pomodorosSessions params;
          focusTime' = focusTime params
      in if strict_eq tasksCompleted' (Num 0) \<and> strict_eq pomodorosSessions' (Num 0)
            \<and> strict_eq focusTime' (Num 0)
         then Num 0
         else Math_round (Math_min (Num 100) (Math_max (Num 0)
                (efficiency_sum tasksPlanned' tasksCompleted' pomodorosSessions' focusTime'))))"

text \<open>The call \<^verbatim>\<open>calculateEfficiency({tasksPlanned, tasksCompleted, pomodorosSessions, focusTime})\<close>
  on four non-negative integers.\<close>

definition efficiency_of :: "nat \<Rightarrow> nat \<Rightarrow> nat \<Rightarrow> nat \<Rightarrow> number" where
  "efficiency_of tp tc p f =
     calculateEfficiency \<lparr>tasksPlanned = Some (num tp), tasksCompleted = num tc,
       pomodorosSessions = num p, focusTime = num f\<rparr>"

section \<open>The stats store and the daily updater\<close>

text \<open>
  The two tables the updater touches. A column the program reads as \<^verbatim>\<open>x || 0\<close> may hold
  \<^verbatim>\<open>null\<close>, which is \<open>None\<close>. A timestamp is a point on the database's time line.
\<close>

record DailyStat =
  stat_id :: string
  user_id :: string
  date :: string
  focus_time :: "number option"
  pomodoro_sessions :: "number option"
  tasks_completed :: "number option"
  efficiency_score :: "number option"

record Task =
  task_id :: string
  task_user_id :: string
  start_time :: int
  completed :: bool

record database =
  user_stats :: "DailyStat list"
  tasks :: "Task list"

text \<open>
  A storage call answers with \<^verbatim>\<open>{ data, error }\<close> and does not throw: \<open>Failed\<close> is an answer
  whose \<^verbatim>\<open>error\<close> is set and whose \<^verbatim>\<open>data\<close> is \<^verbatim>\<open>null\<close>. Whether a call fails is not
  decided by the program, so each call takes the fault as an argument.
  \<^verbatim>\<open>maybeSingle()\<close> answers \<^verbatim>\<open>null\<close> for no row, the row for one, an error for more.
\<close>

datatype 'a response = Data 'a | Failed

definition select_stats :: "bool \<Rightarrow> database \<Rightarrow> string \<Rightarrow> string \<Rightarrow> DailyStat option response" where
  "select_stats fails db userId today =
     (if fails then Failed
      else case filter (\<lambda>r. user_id r = userId \<and> date r = today) (user_stats db) of
             [] \<Rightarrow> Data None
           | [r] \<Rightarrow> Data (Some r)
           | _ \<Rightarrow> Failed)"

text \<open>
  The window of the task query, \<^verbatim>\<open>gte('start_time', `${today}T00:00:00`)\<close> and
  \<^verbatim>\<open>lte('start_time', `${today}T23:59:59`)\<close>. The database reads the two literals as
  timestamps; that reading, \<open>timestamp_of\<close>, is a parameter.
\<close>

definition select_tasks ::
  "bool \<Rightarrow> (string \<Rightarrow> int) \<Rightarrow> database \<Rightarrow> string \<Rightarrow> string \<Rightarrow> Task list response" where
  "select_tasks fails timestamp_of db userId today =
     (if fails then Failed
      else Data (filter (\<lambda>t. task_user_id t = userId
                    \<and> timestamp_of (today @ ''T00:00:00'') \<le> start_time t
                    \<and> start_time t \<le> timestamp_of (today @ ''T23:59:59'')) (tasks db)))"

text \<open>The object handed to \<^verbatim>\<open>update\<close>: a column that is absent keeps its stored value.\<close>

record updateData =
  set_efficiency_score :: "number option"
  set_tasks_completed :: "number option"

definition apply_updateData :: "updateData \<Rightarrow> DailyStat \<Rightarrow> DailyStat" where
  "apply_updateData u r =
     r\<lparr>efficiency_score :=
          (case set_efficiency_score u of None \<Rightarrow> efficiency_score r | Some v \<Rightarrow> Some v),
       tasks_completed :=
          (case set_tasks_completed u of None \<Rightarrow> tasks_completed r | Some v \<Rightarrow> Some v)\<rparr>"

text \<open>\<^verbatim>\<open>from('user_stats').update(u).eq('id', i)\<close>: a failed call writes nothing.\<close>

definition update_stats :: "bool \<Rightarrow> database \<Rightarrow> updateData \<Rightarrow> string \<Rightarrow> database \<times> bool" where
  "update_stats fails db u i =
     (if fails then (db, False)
      else (db\<lparr>user_stats :=
                 map (\<lambda>r. if stat_id r = i then apply_updateData u r else r) (user_stats db)\<rparr>,
            True))"

text \<open>\<^verbatim>\<open>x || 0\<close> on a column: \<^verbatim>\<open>null\<close>, 0 and NaN are falsy.\<close>

definition or_zero :: "number option \<Rightarrow> number" where
  "or_zero v = (case v of None \<Rightarrow> Num 0
                | Some x \<Rightarrow> if x = Num 0 \<or> x = NaN then Num 0 else x)"

datatype console =
  Error_fetching_stats | No_stats_found_for_today
  | Calculating_efficiency_with number number number number number
  | Error_updating_efficiency | Efficiency_updated_successfully_to number

record updater_faults =
  fetch_stats_fails :: bool
  fetch_tasks_fails :: bool
  update_fails :: bool

text \<open>
  \<^verbatim>\<open>updateDailyEfficiency(supabase, userId, additionalTasks = 0)\<close>. The result is the database
  after the call and what was written to the console; the function has no other outcome.
\<close>

definition updateDailyEfficiency ::
  "updater_faults \<Rightarrow> (string \<Rightarrow> int) \<Rightarrow> string \<Rightarrow> database \<Rightarrow> string \<Rightarrow> number option
     \<Rightarrow> database \<times> console list" where
  "updateDailyEfficiency faults timestamp_of today db userId additionalTasks_opt =
     (let additionalTasks = (case additionalTasks_opt of None \<Rightarrow> Num 0 | Some v \<Rightarrow> v)
      in case select_stats (fetch_stats_fails faults) db userId today of
           Failed \<Rightarrow> (db, [Error_fetching_stats])
         | Data None \<Rightarrow> (db, [No_stats_found_for_today])
         | Data (Some stats) \<Rightarrow>
             (let tasksPlanned' =
                    (case select_tasks (fetch_tasks_fails faults) timestamp_of db userId today of
                       Failed \<Rightarrow> Num 0
                     | Data allTasks \<Rightarrow> num (length allTasks));
                  tasksCompleted' = num_add (or_zero (tasks_completed stats)) additionalTasks;
                  efficiency = calculateEfficiency
                    \<lparr>tasksPlanned = Some tasksPlanned', tasksCompleted = tasksCompleted',
                     pomodorosSessions = or_zero (pomodoro_sessions stats),
                     focusTime = or_zero (focus_time stats)\<rparr>;
                  logged = Calculating_efficiency_with tasksPlanned' tasksCompleted'
                     (or_zero (pomodoro_sessions stats)) (or_zero (focus_time stats)) efficiency;
                  updateData = \<lparr>set_efficiency_score = Some efficiency, set_tasks_completed = None\<rparr>;
                  updateData = (if num_greater additionalTasks (Num 0)
                                then updateData\<lparr>set_tasks_completed := Some tasksCompleted'\<rparr>
                                else updateData);
                  (db', ok) = update_stats (update_fails faults) db updateData (stat_id stats)
              in if ok then (db', [logged, Efficiency_updated_successfully_to efficiency])
                 else (db', [logged, Error_updating_efficiency])))"

section \<open>The task-completion toggle\<close>

text \<open>
  \<^verbatim>\<open>insert\<close> of a new row of \<^verbatim>\<open>user_stats\<close>: the database supplies the id and the
  defaults of the columns the program does not set, as the row \<open>fresh\<close>.
\<close>

definition insert_stats :: "bool \<Rightarrow> database \<Rightarrow> DailyStat \<Rightarrow> database" where
  "insert_stats fails db r = (if fails then db else db\<lparr>user_stats := user_stats db @ [r]\<rparr>)"

definition update_task_completed :: "bool \<Rightarrow> database \<Rightarrow> string \<Rightarrow> bool \<Rightarrow> database \<times> bool" where
  "update_task_completed fails db taskId c =
     (if fails then (db, False)
      else (db\<lparr>tasks := map (\<lambda>t. if task_id t = taskId then t\<lparr>completed := c\<rparr> else t) (tasks db)\<rparr>,
            True))"

datatype toast = Toast_Failed_to_update_task | Toast_Task_completed | Toast_Task_marked_as_incomplete

record toggle_faults =
  task_update_fails :: bool
  existing_fetch_fails :: bool
  stats_write_fails :: bool
  updater :: updater_faults

text \<open>
  \<^verbatim>\<open>toggleTaskCompletion(taskId, completed)\<close> of the calendar: \<open>completed\<close> is the flag the
  task had. \<open>auth_user\<close> is the answer of \<^verbatim>\<open>supabase.auth.getUser()\<close>. The result is the
  database, the toast shown, and the component's own task list.
\<close>

definition toggleTaskCompletion ::
  "toggle_faults \<Rightarrow> (string \<Rightarrow> int) \<Rightarrow> string \<Rightarrow> string option \<Rightarrow> DailyStat
     \<Rightarrow> database \<Rightarrow> Task list \<Rightarrow> string \<Rightarrow> bool \<Rightarrow> database \<times> toast \<times> Task list" where
  "toggleTaskCompletion faults timestamp_of today auth_user fresh db local_tasks taskId was_completed =
     (case update_task_completed (task_update_fails faults) db taskId (\<not> was_completed) of
        (db1, False) \<Rightarrow> (db1, Toast_Failed_to_update_task, local_tasks)
      | (db1, True) \<Rightarrow>
          (let db3 =
             (if \<not> was_completed then
                (case auth_user of
                   None \<Rightarrow> db1
                 | Some user \<Rightarrow>
                     (let db2 =
                        (case select_stats (existing_fetch_fails faults) db1 user today of
                           Data (Some existingStats) \<Rightarrow>
                             fst (update_stats (stats_write_fails faults) db1
                               \<lparr>set_efficiency_score = None,
                                set_tasks_completed =
                                  Some (num_add (or_zero (tasks_completed existingStats)) (Num 1))\<rparr>
                               (stat_id existingStats))
                         | _ \<Rightarrow>
                             insert_stats (stats_write_fails faults) db1
                               (fresh\<lparr>user_id := user, date := today,
                                  tasks_completed := Some (Num 1)\<rparr>))
                      in fst (updateDailyEfficiency (updater faults) timestamp_of today db2 user
                                (Some (Num 1)))))
              else db1)
           in (db3,
               (if was_completed then Toast_Task_marked_as_incomplete else Toast_Task_completed),
               map (\<lambda>t. if task_id t = taskId then t\<lparr>completed := \<not> was_completed\<rparr> else t)
                 local_tasks)))"

section \<open>A concrete store\<close>

text \<open>One user with one row for the day and one task scheduled at noon, not yet completed.\<close>

definition example_row :: DailyStat where
  "example_row = \<lparr>stat_id = ''s1'', user_id = ''u1'', date = ''2025-01-15'',
     focus_time = Some (Num 0), pomodoro_sessions = Some (Num 0),
     tasks_completed = Some (Num 0), efficiency_score = Some (Num 0)\<rparr>"

definition example_db :: database where
  "example_db =
     \<lparr>user_stats = [example_row],
      tasks = [\<lparr>task_id = ''t1'', task_user_id = ''u1'', start_time = 43200, completed = False\<rparr>]\<rparr>"

definition example_timestamp_of :: "string \<Rightarrow> int" where
  "example_timestamp_of s = (if s = ''2025-01-15T00:00:00'' then 0 else 86399)"

definition no_faults :: toggle_faults where
  "no_faults = \<lparr>task_update_fails = False, existing_fetch_fails = False,
     stats_write_fails = False,
     updater = \<lparr>fetch_stats_fails = False, fetch_tasks_fails = False, update_fails = False\<rparr>\<rparr>"

definition example_fresh :: DailyStat where
  "example_fresh = \<lparr>stat_id = ''s2'', user_id = [], date = [], focus_time = Some (Num 0),
     pomodoro_sessions = Some (Num 0), tasks_completed = Some (Num 0),
     efficiency_score = Some (Num 0)\<rparr>"





section \<open>The score as the specification words it\<close>

text \<open>
  The three sub-scores and their weighted sum in exact arithmetic, following the algorithm of
  the specification word for word. These definitions are not taken from the code; the code is
  compared with them.
\<close>

definition round_nearest :: "rat \<Rightarrow> int" where
  "round_nearest x = \<lfloor>x + 1 / 2\<rfloor>"

definition task_subscore_spec :: "nat \<Rightarrow> nat \<Rightarrow> rat" where
  "task_subscore_spec tp tc =
     (if tc = 0 then 0
      else if 0 < tp then min 100 (100 * of_nat tc / of_nat tp)
      else min 100 (of_nat tc * 20))"

definition pomodoro_subscore_spec :: "nat \<Rightarrow> rat" where
  "pomodoro_subscore_spec p =
     (if p = 0 then 0
      else if p < 6 then 100 * of_nat p / 6
      else if p \<le> 10 then 100
      else max 70 (100 - 5 * (of_nat p - 10)))"

definition focus_subscore_spec :: "nat \<Rightarrow> rat" where
  "focus_subscore_spec f =
     (if f = 0 then 0
      else if f < 120 then 100 * of_nat f / 120
      else if f \<le> 360 then 100
      else max 80 (100 - 3 * ((of_nat f - 360) / 60)))"

definition weighted_sum_spec :: "nat \<Rightarrow> nat \<Rightarrow> nat \<Rightarrow> nat \<Rightarrow> rat" where
  "weighted_sum_spec tp tc p f =
     35 / 100 * task_subscore_spec tp tc + 35 / 100 * pomodoro_subscore_spec p
       + 30 / 100 * focus_subscore_spec f"

definition calculateEfficiency_spec :: "nat \<Rightarrow> nat \<Rightarrow> nat \<Rightarrow> nat \<Rightarrow> int" where
  "calculateEfficiency_spec tp tc p f =
     (if tc = 0 \<and> p = 0 \<and> f = 0 then 0
      else round_nearest (min 100 (max 0 (weighted_sum_spec tp tc p f))))"

section \<open>Facts about rounding to binary64\<close>

lemma pow2_powi: "pow2 k = 2 powi k"
  by (simp add: pow2_def power_int_def inverse_eq_divide power_one_over)

lemma pow2_pos [simp]: "0 < pow2 k"
  by (simp add: pow2_powi)

lemma pow2_neq0 [simp]: "pow2 k \<noteq> 0"
  by (simp add: pow2_powi)

lemma pow2_abs [simp]: "\<bar>pow2 k\<bar> = pow2 k"
  by (rule abs_of_pos) (rule pow2_pos)

lemma pow2_add: "pow2 (a + b) = pow2 a * pow2 b"
  by (simp add: pow2_powi power_int_add)

lemma pow2_nat: "0 \<le> k \<Longrightarrow> pow2 k = of_int (2 ^ nat k)"
  by (simp add: pow2_def)

lemma pow2_neg: "k \<le> 0 \<Longrightarrow> pow2 k = 1 / of_int (2 ^ nat (- k))"
  by (cases "k = 0") (simp_all add: pow2_def)

lemma pow2_le: "a \<le> b \<Longrightarrow> pow2 a \<le> pow2 b"
  by (simp add: pow2_powi power_int_increasing)

lemma pow2_less: "a < b \<Longrightarrow> pow2 a < pow2 b"
  by (simp add: pow2_powi power_int_strict_increasing)

lemma pow2_le_iff: "pow2 a \<le> pow2 b \<longleftrightarrow> a \<le> b"
  using pow2_le [of a b] pow2_less [of b a] by (auto simp: not_le [symmetric])

lemma pow2_less_iff: "pow2 a < pow2 b \<longleftrightarrow> a < b"
  using pow2_le [of b a] pow2_less [of a b] by (auto simp: not_less [symmetric])

lemma ilog2_lower: assumes "x \<noteq> 0" shows "pow2 (ilog2 x) \<le> \<bar>x\<bar>"
proof (cases "1 \<le> \<bar>x\<bar>")
  case True
  define n where "n = \<lfloor>\<bar>x\<bar>\<rfloor>"
  have n: "0 < n" using True by (simp add: n_def)
  have b: "1 \<le> bitlen n" using n bitlen_eq_zero_iff [of n] bitlen_nonneg [of n] by linarith
  have "pow2 (bitlen n - 1) = of_int (2 ^ nat (bitlen n - 1))"
    using b by (intro pow2_nat) simp
  also have "\<dots> \<le> of_int n" using bitlen_bounds [OF n] by (simp only: of_int_le_iff)
  also have "\<dots> \<le> \<bar>x\<bar>" by (simp add: n_def)
  finally show ?thesis using True by (simp add: ilog2_def n_def)
next
  case False
  define y where "y = 1 / \<bar>x\<bar>"
  define m where "m = \<lceil>y\<rceil>"
  define k where "k = bitlen (m - 1)"
  have y: "1 < y" using False assms by (simp add: y_def)
  have m: "0 < m - 1" using y by (simp add: m_def)
  have "m - 1 < 2 ^ nat k" using bitlen_bounds [OF m] by (simp add: k_def)
  then have "m \<le> 2 ^ nat k" by simp
  then have "(of_int m :: rat) \<le> of_int (2 ^ nat k)" by (simp only: of_int_le_iff)
  moreover have "y \<le> of_int m" by (simp add: m_def)
  ultimately have "y \<le> of_int (2 ^ nat k)" by linarith
  then have "1 / of_int (2 ^ nat k) \<le> \<bar>x\<bar>"
    using assms by (simp add: y_def field_simps)
  moreover have "pow2 (- k) = 1 / of_int (2 ^ nat (- (- k)))"
    by (intro pow2_neg) (simp add: k_def bitlen_nonneg)
  ultimately show ?thesis using False by (simp add: ilog2_def y_def m_def k_def)
qed

lemma ilog2_upper: assumes "x \<noteq> 0" shows "\<bar>x\<bar> < pow2 (ilog2 x + 1)"
proof (cases "1 \<le> \<bar>x\<bar>")
  case True
  define n where "n = \<lfloor>\<bar>x\<bar>\<rfloor>"
  have n: "0 < n" using True by (simp add: n_def)
  have "n + 1 \<le> 2 ^ nat (bitlen n)" using bitlen_bounds [OF n] by simp
  then have "(of_int (n + 1) :: rat) \<le> of_int (2 ^ nat (bitlen n))" by (simp only: of_int_le_iff)
  moreover have "\<bar>x\<bar> < of_int (n + 1)" using floor_correct [of "\<bar>x\<bar>"] by (simp add: n_def)
  moreover have "pow2 (bitlen n) = of_int (2 ^ nat (bitlen n))"
    by (intro pow2_nat) (simp add: bitlen_nonneg)
  ultimately show ?thesis using True by (simp add: ilog2_def n_def)
next
  case False
  define y where "y = 1 / \<bar>x\<bar>"
  define m where "m = \<lceil>y\<rceil>"
  define k where "k = bitlen (m - 1)"
  have y: "1 < y" using False assms by (simp add: y_def)
  have m: "0 < m - 1" using y by (simp add: m_def)
  have k: "1 \<le> k" using m bitlen_eq_zero_iff [of "m - 1"] bitlen_nonneg [of "m - 1"]
    unfolding k_def by linarith
  have "2 ^ nat (k - 1) \<le> m - 1" using bitlen_bounds [OF m] by (simp add: k_def)
  then have "(of_int (2 ^ nat (k - 1)) :: rat) \<le> of_int (m - 1)" by (simp only: of_int_le_iff)
  moreover have "of_int (m - 1) < y" using ceiling_correct [of y] unfolding m_def by simp
  ultimately have "of_int (2 ^ nat (k - 1)) < y" by linarith
  then have "\<bar>x\<bar> < 1 / of_int (2 ^ nat (k - 1))"
    using assms by (simp add: y_def field_simps)
  moreover have "pow2 (- k + 1) = 1 / of_int (2 ^ nat (- (- k + 1)))"
    using k by (intro pow2_neg) simp
  moreover have "nat (- (- k + 1)) = nat (k - 1)" by simp
  ultimately show ?thesis using False by (simp add: ilog2_def y_def m_def k_def)
qed

lemma ilog2_unique:
  assumes "pow2 e \<le> \<bar>x\<bar>" "\<bar>x\<bar> < pow2 (e + 1)" shows "ilog2 x = e"
proof -
  have x: "x \<noteq> 0"
  proof
    assume "x = 0"
    with assms(1) have "pow2 e \<le> 0" by simp
    with pow2_pos [of e] show False by linarith
  qed
  have "pow2 e < pow2 (ilog2 x + 1)" using assms(1) ilog2_upper [OF x] by linarith
  moreover have "pow2 (ilog2 x) < pow2 (e + 1)" using assms(2) ilog2_lower [OF x] by linarith
  ultimately show ?thesis by (simp add: pow2_less_iff)
qed

lemma ilog2_mono:
  assumes "x \<noteq> 0" "\<bar>x\<bar> \<le> \<bar>y\<bar>" shows "ilog2 x \<le> ilog2 y"
proof -
  have y: "y \<noteq> 0" using assms by auto
  have "pow2 (ilog2 x) < pow2 (ilog2 y + 1)"
    using ilog2_lower [OF assms(1)] ilog2_upper [OF y] assms(2) by linarith
  then show ?thesis by (simp add: pow2_less_iff)
qed

lemma ilog2_minus [simp]: "ilog2 (- x) = ilog2 x"
  by (simp add: ilog2_def)


lemma rne_cases: "rne a = \<lfloor>a\<rfloor> \<or> rne a = \<lfloor>a\<rfloor> + 1"
  by (simp add: rne_def Let_def)

lemma rne_error: "\<bar>of_int (rne a) - a\<bar> \<le> 1 / 2"
proof -
  have "of_int \<lfloor>a\<rfloor> \<le> a" "a < of_int \<lfloor>a\<rfloor> + 1" using floor_correct [of a] by auto
  then show ?thesis by (auto simp: rne_def Let_def abs_le_iff)
qed

lemma rne_of_int [simp]: "rne (of_int n) = n"
  by (simp add: rne_def Let_def)

lemma rne_mono: assumes "a \<le> b" shows "rne a \<le> rne b"
proof (cases "\<lfloor>a\<rfloor> = \<lfloor>b\<rfloor>")
  case True
  then show ?thesis using assms by (auto simp: rne_def Let_def)
next
  case False
  then have "\<lfloor>a\<rfloor> + 1 \<le> \<lfloor>b\<rfloor>" using floor_mono [OF assms] by linarith
  moreover have "rne a \<le> \<lfloor>a\<rfloor> + 1" using rne_cases [of a] by auto
  moreover have "\<lfloor>b\<rfloor> \<le> rne b" using rne_cases [of b] by auto
  ultimately show ?thesis by linarith
qed

lemma rne_minus: "rne (- a) = - rne a"
proof (cases "a = of_int \<lfloor>a\<rfloor>")
  case True
  then obtain n where "a = of_int n" ..
  then have "- a = of_int (- n)" by simp
  then show ?thesis unfolding \<open>a = of_int n\<close> by (simp only: rne_of_int)
next
  case False
  then have lt: "of_int \<lfloor>a\<rfloor> < a" using floor_correct [of a] by linarith
  have fl: "\<lfloor>- a\<rfloor> = - \<lfloor>a\<rfloor> - 1"
    using lt floor_correct [of a] by (intro floor_unique) auto
  show ?thesis
    unfolding rne_def Let_def fl using lt by (auto simp: field_simps)
qed

lemma quantum_pos [simp]: "0 < quantum x"
  by (simp add: quantum_def)

lemma quantum_nonneg [simp]: "0 \<le> quantum x"
  using quantum_pos [of x] by (rule less_imp_le)

lemma quantum_minus [simp]: "quantum (- x) = quantum x"
  by (simp add: quantum_def)

lemma rnd_minus: "rnd (- x) = - rnd x"
  by (simp add: rnd_def rne_minus)

lemma rnd_zero [simp]: "rnd 0 = 0"
  by (simp add: rnd_def)

lemma rnd_nonneg: assumes "0 \<le> x" shows "0 \<le> rnd x"
proof (cases "x = 0")
  case False
  have "0 \<le> x / quantum x" using assms quantum_pos [of x] by (intro divide_nonneg_pos)
  then have "rne 0 \<le> rne (x / quantum x)" by (rule rne_mono)
  then have "0 \<le> rne (x / quantum x)" using rne_of_int [of 0] by simp
  then show ?thesis using False by (simp add: rnd_def)
qed simp

lemma rnd_nonpos: "x \<le> 0 \<Longrightarrow> rnd x \<le> 0"
  using rnd_nonneg [of "- x"] by (simp add: rnd_minus)

text \<open>A multiple of the quantum above (below) \<open>x\<close> stays above (below) the rounded value.\<close>

lemma rnd_le_multiple:
  assumes "x \<noteq> 0" "x \<le> of_int m * quantum x" shows "rnd x \<le> of_int m * quantum x"
proof -
  have "x / quantum x \<le> of_int m" using assms(2) by (simp add: field_simps)
  then have "rne (x / quantum x) \<le> rne (of_int m)" by (rule rne_mono)
  then have "(of_int (rne (x / quantum x)) :: rat) \<le> of_int m" by simp
  then show ?thesis using assms(1) by (simp add: rnd_def)
qed

lemma rnd_ge_multiple:
  assumes "x \<noteq> 0" "of_int m * quantum x \<le> x" shows "of_int m * quantum x \<le> rnd x"
proof -
  have "of_int m \<le> x / quantum x" using assms(2) by (simp add: field_simps)
  then have "rne (of_int m) \<le> rne (x / quantum x)" by (rule rne_mono)
  then have "(of_int m :: rat) \<le> of_int (rne (x / quantum x))" by simp
  then show ?thesis using assms(1) by (simp add: rnd_def)
qed

lemma pow2_multiple:
  assumes "b \<le> a" shows "pow2 a = of_int (2 ^ nat (a - b)) * pow2 b"
proof -
  have "pow2 a = pow2 ((a - b) + b)" by simp
  also have "\<dots> = pow2 (a - b) * pow2 b" by (rule pow2_add)
  also have "pow2 (a - b) = of_int (2 ^ nat (a - b))" using assms by (intro pow2_nat) simp
  finally show ?thesis .
qed

lemma rnd_mono_pos: assumes "0 < x" "x \<le> y" shows "rnd x \<le> rnd y"
proof -
  have x: "x \<noteq> 0" and y: "y \<noteq> 0" using assms by auto
  define ex where "ex = max (ilog2 x - 52) (- 1074)"
  define ey where "ey = max (ilog2 y - 52) (- 1074)"
  have qx: "quantum x = pow2 ex" and qy: "quantum y = pow2 ey"
    by (simp_all add: quantum_def ex_def ey_def)
  have le: "ilog2 x \<le> ilog2 y" using assms by (intro ilog2_mono) auto
  show ?thesis
  proof (cases "ex = ey")
    case True
    then have q: "quantum x = quantum y" by (simp add: qx qy)
    have "x / quantum y \<le> y / quantum y"
      using assms(2) quantum_pos [of y] by (intro divide_right_mono) simp_all
    then have "rne (x / quantum y) \<le> rne (y / quantum y)" by (rule rne_mono)
    then have "(of_int (rne (x / quantum y)) :: rat) \<le> of_int (rne (y / quantum y))" by simp
    then show ?thesis using x y by (simp add: rnd_def q)
  next
    case False
    then have lt: "ilog2 x < ilog2 y" and eyn: "ey = ilog2 y - 52" and exle: "ex \<le> ilog2 y"
      using le by (auto simp: ex_def ey_def max_def split: if_splits)
    have "x \<le> pow2 (ilog2 y)"
      using ilog2_upper [OF x] assms(1) pow2_le [of "ilog2 x + 1" "ilog2 y"] lt by simp
    then have "x \<le> of_int (2 ^ nat (ilog2 y - ex)) * quantum x"
      using pow2_multiple [OF exle] by (simp add: qx)
    then have "rnd x \<le> of_int (2 ^ nat (ilog2 y - ex)) * quantum x" by (rule rnd_le_multiple [OF x])
    then have 1: "rnd x \<le> pow2 (ilog2 y)" using pow2_multiple [OF exle] by (simp add: qx)
    have "ey \<le> ilog2 y" by (simp add: eyn)
    from pow2_multiple [OF this]
    have py: "pow2 (ilog2 y) = of_int (2 ^ nat (ilog2 y - ey)) * quantum y" by (simp add: qy)
    have "pow2 (ilog2 y) \<le> y" using ilog2_lower [OF y] assms by simp
    then have "of_int (2 ^ nat (ilog2 y - ey)) * quantum y \<le> y" by (simp only: py)
    then have "of_int (2 ^ nat (ilog2 y - ey)) * quantum y \<le> rnd y" by (rule rnd_ge_multiple [OF y])
    then have "pow2 (ilog2 y) \<le> rnd y" by (simp only: py)
    with 1 show ?thesis by linarith
  qed
qed

lemma rnd_mono: assumes "x \<le> y" shows "rnd x \<le> rnd y"
proof -
  consider "0 < x" | "x \<le> 0" "0 \<le> y" | "y < 0" by linarith
  then show ?thesis
  proof cases
    case 1
    then show ?thesis using assms by (rule rnd_mono_pos)
  next
    case 2
    then show ?thesis using rnd_nonpos [of x] rnd_nonneg [of y] by linarith
  next
    case 3
    then have "rnd (- y) \<le> rnd (- x)" using assms by (intro rnd_mono_pos) auto
    then show ?thesis by (simp add: rnd_minus)
  qed
qed


lemma rnd_int: assumes "\<bar>n\<bar> < 2 ^ 53" shows "rnd (of_int n) = of_int n"
proof (cases "n = 0")
  case False
  define x :: rat where "x = of_int n"
  have x: "x \<noteq> 0" using False by (simp add: x_def)
  have "\<bar>x\<bar> < of_int (2 ^ 53)" unfolding x_def using assms
    by (simp only: of_int_abs [symmetric] of_int_less_iff)
  moreover have "pow2 53 = of_int (2 ^ nat 53)" by (rule pow2_nat) simp
  ultimately have "pow2 (ilog2 x) < pow2 53" using ilog2_lower [OF x] by simp
  then have hi: "ilog2 x \<le> 52" by (simp add: pow2_less_iff)
  have "1 \<le> \<bar>n\<bar>" using False by simp
  then have "(of_int 1 :: rat) \<le> \<bar>x\<bar>" unfolding x_def
    by (simp only: of_int_abs [symmetric] of_int_le_iff)
  moreover have "pow2 0 = 1" by (simp add: pow2_def)
  ultimately have "pow2 0 < pow2 (ilog2 x + 1)" using ilog2_upper [OF x] by simp
  then have lo: "0 \<le> ilog2 x" by (simp add: pow2_less_iff)
  define k where "k = nat (52 - ilog2 x)"
  have "quantum x = pow2 (- int k)" using hi lo by (simp add: quantum_def k_def max_def)
  also have "\<dots> = 1 / of_int (2 ^ k)" using pow2_neg [of "- int k"] by simp
  finally have q: "quantum x = 1 / of_int (2 ^ k)" .
  have "x / quantum x = of_int (n * 2 ^ k)" unfolding q by (simp add: x_def)
  then have "rne (x / quantum x) = n * 2 ^ k" by (simp only: rne_of_int)
  then have "rnd x = of_int (n * 2 ^ k) * (1 / of_int (2 ^ k))" using x by (simp add: rnd_def q)
  then show ?thesis by (simp add: x_def)
qed simp

lemma rnd_nat: "n < 2 ^ 53 \<Longrightarrow> rnd (of_nat n) = of_nat n"
  using rnd_int [of "int n"] by simp

lemma rnd_numeral: "numeral w < (2 ^ 53 :: int) \<Longrightarrow> rnd (numeral w) = numeral w"
  using rnd_int [of "numeral w"] by simp

lemma rnd_error:
  assumes "\<bar>x\<bar> \<le> B" "1 \<le> B" shows "\<bar>rnd x - x\<bar> \<le> B / 2 ^ 53"
proof (cases "x = 0")
  case False
  define q where "q = quantum x"
  have q: "0 < q" by (simp add: q_def)
  have "pow2 (ilog2 x - 52) = pow2 (ilog2 x) * pow2 (- 52)"
    using pow2_add [of "ilog2 x" "- 52"] by simp
  also have "\<dots> \<le> \<bar>x\<bar> * pow2 (- 52)"
    using ilog2_lower [OF False] by (intro mult_right_mono) (simp_all add: less_imp_le)
  also have "\<dots> \<le> B * pow2 (- 52)"
    using assms(1) by (intro mult_right_mono) (simp_all add: less_imp_le)
  finally have 1: "pow2 (ilog2 x - 52) \<le> B * pow2 (- 52)" .
  have "pow2 (- 1074) \<le> pow2 (- 52)" by (rule pow2_le) simp
  also have "\<dots> \<le> B * pow2 (- 52)" using assms(2) by (simp add: less_imp_le)
  finally have 2: "pow2 (- 1074) \<le> B * pow2 (- 52)" .
  have "q \<le> B * pow2 (- 52)" using 1 2 by (simp add: q_def quantum_def max_def)
  moreover have "pow2 (- 52) = 1 / 2 ^ 52" by (simp add: pow2_def)
  ultimately have qb: "q \<le> B / 2 ^ 52" by simp
  have "rnd x = of_int (rne (x / q)) * q" using False by (simp add: rnd_def q_def)
  then have "rnd x - x = (of_int (rne (x / q)) - x / q) * q"
    using q by (simp add: field_simps)
  then have "\<bar>rnd x - x\<bar> = \<bar>of_int (rne (x / q)) - x / q\<bar> * q"
    using q by (simp add: abs_mult)
  also have "\<dots> \<le> (1 / 2) * q" using rne_error [of "x / q"] q by (intro mult_right_mono) simp_all
  also have "\<dots> \<le> (1 / 2) * (B / 2 ^ 52)" using qb by simp
  finally show ?thesis by simp
next
  case True
  then show ?thesis using assms by simp
qed

lemma binary64_cases:
  "binary64 x = Num (rnd x) \<or> (binary64 x = PosInf \<and> 0 < rnd x) \<or> (binary64 x = NegInf \<and> rnd x < 0)"
  by (auto simp: binary64_def Let_def)

lemma rnd_pow2: assumes "- 1074 \<le> k" shows "rnd (pow2 k) = pow2 k"
proof -
  define j where "j = max (k - 52) (- 1074)"
  have j: "j \<le> k" using assms by (simp add: j_def)
  have "ilog2 (pow2 k) = k" using pow2_less [of k "k + 1"] by (intro ilog2_unique) simp_all
  then have q: "quantum (pow2 k) = pow2 j" by (simp add: quantum_def j_def)
  have m: "pow2 k = of_int (2 ^ nat (k - j)) * pow2 j" using j by (rule pow2_multiple)
  have "pow2 k / pow2 j = of_int (2 ^ nat (k - j))"
    using pow2_pos [of j] by (subst m) simp
  then have "rne (pow2 k / pow2 j) = 2 ^ nat (k - j)" by (simp only: rne_of_int)
  then have "rnd (pow2 k) = of_int (2 ^ nat (k - j)) * pow2 j"
    using pow2_pos [of k] by (simp add: rnd_def q)
  then show ?thesis using m by simp
qed

lemma binary64_finite_pow2: assumes "\<bar>x\<bar> \<le> pow2 1023" shows "binary64 x = Num (rnd x)"
proof -
  have r: "rnd (pow2 1023) = pow2 1023" by (rule rnd_pow2) simp
  have le: "x \<le> pow2 1023" and ge: "- pow2 1023 \<le> x" using assms by linarith+
  have 1: "rnd x \<le> pow2 1023" using rnd_mono [OF le] by (simp only: r)
  have 2: "- pow2 1023 \<le> rnd x" using rnd_mono [OF ge] by (simp only: rnd_minus r)
  have b: "\<bar>rnd x\<bar> \<le> pow2 1023" using 1 2 by linarith
  have "\<not> (rnd x \<noteq> 0 \<and> 1024 \<le> ilog2 (rnd x))"
  proof
    assume a: "rnd x \<noteq> 0 \<and> 1024 \<le> ilog2 (rnd x)"
    then have "pow2 1024 \<le> pow2 (ilog2 (rnd x))" by (intro pow2_le) simp
    also have "\<dots> \<le> \<bar>rnd x\<bar>" using a by (intro ilog2_lower) simp
    also have "\<dots> \<le> pow2 1023" by (rule b)
    finally show False by (simp add: pow2_le_iff)
  qed
  then show ?thesis by (auto simp: binary64_def Let_def)
qed

lemma binary64_finite: assumes "\<bar>x\<bar> \<le> 2 ^ 53" shows "binary64 x = Num (rnd x)"
proof -
  have "pow2 53 \<le> pow2 1023" by (rule pow2_le) simp
  moreover have "pow2 53 = 2 ^ 53" by (simp add: pow2_def)
  ultimately show ?thesis using assms by (intro binary64_finite_pow2) linarith
qed

lemma num_sub_Num: "num_sub (Num a) (Num b) = binary64 (a - b)"
  by (simp add: num_sub_def)

lemma num_greater_num [simp]: "num_greater (num n) (Num 0) \<longleftrightarrow> 0 < n"
  by (simp add: num_greater_def num_def)

lemma strict_eq_num [simp]: "strict_eq (num n) (Num 0) \<longleftrightarrow> n = 0"
  by (simp add: num_def)

section \<open>The daily updater\<close>

lemma select_stats_map:
  assumes "select_stats False db userId today = Data (Some r)"
    and "\<And>x. user_id (g x) = user_id x \<and> date (g x) = date x"
  shows "select_stats False (db\<lparr>user_stats := map g (user_stats db)\<rparr>) userId today
           = Data (Some (g r))"
proof -
  let ?P = "\<lambda>r. user_id r = userId \<and> date r = today"
  have "filter ?P (map g (user_stats db)) = map g (filter ?P (user_stats db))"
    by (induction "user_stats db" arbitrary: db) (simp_all add: filter_map o_def assms(2))
  moreover have "filter ?P (user_stats db) = [r]"
    using assms(1) by (auto simp: select_stats_def split: list.splits)
  ultimately show ?thesis by (simp add: select_stats_def)
qed

lemma updateDailyEfficiency_success:
  assumes "select_stats (fetch_stats_fails faults) db userId today = Data (Some stats)"
    and "\<not> update_fails faults"
  shows "fst (updateDailyEfficiency faults timestamp_of today db userId (Some additionalTasks)) =
           db\<lparr>user_stats := map (\<lambda>r. if stat_id r = stat_id stats
               then r\<lparr>efficiency_score := Some (calculateEfficiency
                         \<lparr>tasksPlanned = Some (case select_tasks (fetch_tasks_fails faults)
                                                     timestamp_of db userId today of
                                                Failed \<Rightarrow> Num 0
                                              | Data allTasks \<Rightarrow> num (length allTasks)),
                          tasksCompleted = num_add (or_zero (tasks_completed stats)) additionalTasks,
                          pomodorosSessions = or_zero (pomodoro_sessions stats),
                          focusTime = or_zero (focus_time stats)\<rparr>),
                      tasks_completed :=
                        (if num_greater additionalTasks (Num 0)
                         then Some (num_add (or_zero (tasks_completed stats)) additionalTasks)
                         else tasks_completed r)\<rparr>
               else r) (user_stats db)\<rparr>"
  using assms
  by (simp add: updateDailyEfficiency_def Let_def update_stats_def apply_updateData_def
      split: prod.splits)

text \<open>
  C8. When the fetch of today's row fails, or succeeds and finds no row, the updater returns
  with the store as it was: it has written nothing, and all it has done is log one line.
  A failed fetch covers the storage error and the answer of \<^verbatim>\<open>maybeSingle()\<close> to more than
  one row.
\<close>

theorem updateDailyEfficiency_aborts:
  assumes "select_stats (fetch_stats_fails faults) db userId today = Failed
           \<or> select_stats (fetch_stats_fails faults) db userId today = Data None"
  shows "fst (updateDailyEfficiency faults timestamp_of today db userId additionalTasks) = db
         \<and> (snd (updateDailyEfficiency faults timestamp_of today db userId additionalTasks)
               = [Error_fetching_stats]
             \<or> snd (updateDailyEfficiency faults timestamp_of today db userId additionalTasks)
               = [No_stats_found_for_today])"
  using assms by (auto simp: updateDailyEfficiency_def Let_def)

theorem updateDailyEfficiency_aborts_witness:
  "select_stats (fetch_stats_fails (updater no_faults)) example_db ''u2'' ''2025-01-15'' = Data None
   \<and> fst (updateDailyEfficiency (updater no_faults) example_timestamp_of ''2025-01-15''
           example_db ''u2'' None) = example_db"
proof -
  have h: "select_stats (fetch_stats_fails (updater no_faults)) example_db ''u2'' ''2025-01-15''
             = Data None"
    by (simp add: select_stats_def example_db_def example_row_def no_faults_def)
  from updateDailyEfficiency_aborts [OF disjI2, OF h] h show ?thesis by blast
qed





section \<open>The toggle flow\<close>

lemma num_add_one: assumes "n + 1 < 2 ^ 53" shows "num_add (num n) (Num 1) = num (n + 1)"
proof -
  have lt: "int (n + 1) < 2 ^ 53" using assms by (simp only: of_nat_less_numeral_power_cancel_iff)
  have "rnd (of_int (int (n + 1))) = of_int (int (n + 1))" using lt by (intro rnd_int) simp
  then have r: "rnd (of_nat n + 1) = of_nat n + 1" by (simp add: add.commute)
  have "(of_int (int (n + 1)) :: rat) < of_int (2 ^ 53)" using lt by (simp only: of_int_less_iff)
  then have "\<bar>(of_nat n + 1 :: rat)\<bar> \<le> 2 ^ 53" by simp
  then have f: "binary64 (of_nat n + 1) = Num (rnd (of_nat n + 1))" by (rule binary64_finite)
  show ?thesis using r f by (simp add: num_def)
qed

lemma or_zero_num [simp]: "or_zero (Some (num n)) = num n"
  by (simp add: or_zero_def num_def)

lemma select_stats_tasks [simp]:
  "select_stats f (fst (update_task_completed False db taskId c)) userId today
     = select_stats f db userId today"
  by (simp add: select_stats_def update_task_completed_def)

text \<open>
  Whenever today's row exists, every storage call succeeds and the stored count is a safe
  integer, one toggle from incomplete to complete raises the stored \<open>tasks_completed\<close> by two:
  the toggle writes the count plus one, and the updater, called with \<open>additionalTasks = 1\<close>,
  reads that value back and writes it plus one again.
\<close>

lemma toggleTaskCompletion_counts_twice:
  assumes faults: "task_update_fails faults = False" "existing_fetch_fails faults = False"
      "stats_write_fails faults = False" "fetch_stats_fails (updater faults) = False"
      "update_fails (updater faults) = False"
    and row: "select_stats False db user today = Data (Some r)"
    and stored: "tasks_completed r = Some (num n)" and safe: "n + 2 < 2 ^ 53"
  shows "\<exists>r'. select_stats False
                 (fst (toggleTaskCompletion faults timestamp_of today (Some user) fresh db
                         local_tasks taskId False)) user today = Data (Some r')
              \<and> tasks_completed r' = Some (num (n + 2))"
proof -
  define db1 where "db1 = fst (update_task_completed False db taskId True)"
  define u1 where "u1 = \<lparr>set_efficiency_score = None,
     set_tasks_completed = Some (num_add (or_zero (tasks_completed r)) (Num 1))\<rparr>"
  define g1 where "g1 = (\<lambda>x. if stat_id x = stat_id r then apply_updateData u1 x else x)"
  define db2 where "db2 = db1\<lparr>user_stats := map g1 (user_stats db1)\<rparr>"
  have s1: "select_stats False db1 user today = Data (Some r)"
    by (simp add: db1_def row)
  have s2: "select_stats False db2 user today = Data (Some (g1 r))"
    unfolding db2_def using s1 by (rule select_stats_map) (simp add: g1_def apply_updateData_def)
  have t2: "tasks_completed (g1 r) = Some (num (n + 1))"
    using safe by (simp add: g1_def u1_def apply_updateData_def stored num_add_one)
  have t: "fst (toggleTaskCompletion faults timestamp_of today (Some user) fresh db
                         local_tasks taskId False)
        = fst (updateDailyEfficiency (updater faults) timestamp_of today db2 user (Some (Num 1)))"
    using s1 unfolding db2_def g1_def u1_def db1_def
    by (simp add: toggleTaskCompletion_def faults update_task_completed_def update_stats_def
        Let_def)
  have three: "num_add (or_zero (tasks_completed (g1 r))) (Num 1) = num (n + 2)"
    using safe num_add_one [of "n + 1"] by (simp add: t2)
  have s2': "select_stats (fetch_stats_fails (updater faults)) db2 user today = Data (Some (g1 r))"
    using s2 by (simp add: faults)
  have u: "\<not> update_fails (updater faults)" by (simp add: faults)
  show ?thesis
    unfolding t updateDailyEfficiency_success [OF s2' u]
    by (subst select_stats_map [OF s2]) (simp_all add: three num_greater_def)
qed

text \<open>
  C1. The claim is that one completion raises today's stored \<open>tasks_completed\<close> by exactly one.
  On the store with one row holding 0, the flow leaves 2.
\<close>

theorem toggleTaskCompletion_single_completion_counted_twice:
  "map tasks_completed (user_stats example_db) = [Some (Num 0)]
   \<and> map tasks_completed (user_stats (fst (toggleTaskCompletion no_faults example_timestamp_of
         ''2025-01-15'' (Some ''u1'') example_fresh example_db (tasks example_db) ''t1'' False)))
       = [Some (Num 2)]"
  by code_simp

section \<open>The calculator against the exact formula\<close>

lemma lit35: "literal (35 / 100) = Num (3152519739159347 / 9007199254740992)"
  by code_simp

lemma lit30: "literal (30 / 100) = Num (5404319552844595 / 18014398509481984)"
  by code_simp

lemma binary64_ge:
  assumes "v \<le> x" "0 \<le> v"
  shows "binary64 x = PosInf \<or> (\<exists>r. binary64 x = Num r \<and> rnd v \<le> r)"
proof -
  have "rnd v \<le> rnd x" using assms(1) by (rule rnd_mono)
  moreover have "0 \<le> rnd v" using assms(2) by (rule rnd_nonneg)
  ultimately show ?thesis using binary64_cases [of x] by auto
qed

lemma binary64_le:
  assumes "x \<le> v" "v \<le> 2 ^ 53"
  shows "binary64 x = NegInf \<or> (\<exists>r. binary64 x = Num r \<and> r \<le> rnd v)"
proof (cases "- (2 ^ 53) \<le> x")
  case True
  then have "\<bar>x\<bar> \<le> 2 ^ 53" using assms by linarith
  then have "binary64 x = Num (rnd x)" by (rule binary64_finite)
  then show ?thesis using rnd_mono [OF assms(1)] by simp
next
  case False
  moreover have "(0::rat) \<le> 2 ^ 53" by simp
  ultimately have "x \<le> 0" by linarith
  then have "rnd x \<le> 0" by (rule rnd_nonpos)
  then show ?thesis using binary64_cases [of x] rnd_mono [OF assms(1)] by auto
qed

lemma num_mul_finite:
  "\<bar>a * b\<bar> \<le> 2 ^ 53 \<Longrightarrow> num_mul (Num a) (Num b) = Num (rnd (a * b))"
  by (simp add: binary64_finite)

lemma num_add_finite:
  "\<bar>a + b\<bar> \<le> 2 ^ 53 \<Longrightarrow> num_add (Num a) (Num b) = Num (rnd (a + b))"
  by (simp add: binary64_finite)

lemma rnd_one [simp]: "rnd 1 = 1"
  using rnd_int [of 1] by simp

lemma rnd_numeral' [simp]: "numeral w < (2 ^ 53 :: int) \<Longrightarrow> rnd (numeral w) = numeral w"
  by (rule rnd_numeral)

lemma rnd_err:
  assumes "\<bar>x\<bar> \<le> B" "1 \<le> B" shows "\<bar>rnd x - x\<bar> \<le> B / 9007199254740992"
  using rnd_error [OF assms] by simp

text \<open>The ramp \<open>(a / b) * 100\<close> below an ideal range.\<close>

lemma ramp:
  assumes "0 \<le> a" "a \<le> 1"
  shows "\<exists>s. num_mul (binary64 a) (Num 100) = Num s \<and> 0 \<le> s \<and> s \<le> 100
             \<and> \<bar>s - 100 * a\<bar> \<le> 1 / 2 ^ 45"
proof -
  define r where "r = rnd a"
  have b: "binary64 a = Num r" unfolding r_def using assms by (intro binary64_finite) simp
  have r0: "0 \<le> r" unfolding r_def using assms(1) by (rule rnd_nonneg)
  have r1: "r \<le> 1" unfolding r_def using rnd_mono [OF assms(2)] by simp
  have "\<bar>a\<bar> \<le> 1" using assms by linarith
  from rnd_err [OF this] have re: "\<bar>r - a\<bar> \<le> 1 / 9007199254740992" by (simp add: r_def)
  define s where "s = rnd (r * 100)"
  have m: "num_mul (Num r) (Num 100) = Num s"
    unfolding s_def using r0 r1 by (intro num_mul_finite) simp
  have s0: "0 \<le> s" unfolding s_def using r0 by (intro rnd_nonneg) simp
  have "r * 100 \<le> 100" using r1 by simp
  from rnd_mono [OF this] have s1: "s \<le> 100" by (simp add: s_def)
  have "\<bar>r * 100\<bar> \<le> 128" using r0 r1 by linarith
  from rnd_err [OF this] have se: "\<bar>s - r * 100\<bar> \<le> 128 / 9007199254740992" by (simp add: s_def)
  have "\<bar>s - 100 * a\<bar> \<le> 1 / 35184372088832" using se re by linarith
  then have "\<bar>s - 100 * a\<bar> \<le> 1 / 2 ^ 45" by simp
  then show ?thesis using b m s0 s1 by simp
qed


subsection \<open>The task sub-score\<close>

lemma completionRate_capped:
  assumes "0 < tp" "tp \<le> tc" shows "completionRate (num tp) (num tc) = Num 100"
proof -
  define a :: rat where "a = of_nat tc / of_nat tp"
  have d: "num_div (num tc) (num tp) = binary64 a" using assms by (simp add: num_def a_def)
  have "1 \<le> a" using assms by (simp add: a_def)
  from binary64_ge [OF this] consider "binary64 a = PosInf" | r where "binary64 a = Num r" "1 \<le> r"
    by auto
  then show ?thesis
  proof cases
    case 1
    then show ?thesis by (simp add: completionRate_def d inf_of_sign_def)
  next
    case 2
    have "100 \<le> r * 100" using 2 by simp
    from binary64_ge [OF this]
    have "binary64 (r * 100) = PosInf \<or> (\<exists>r'. binary64 (r * 100) = Num r' \<and> 100 \<le> r')" by simp
    then show ?thesis using 2 by (auto simp: completionRate_def d)
  qed
qed

lemma completionRate_ramp:
  assumes "0 < tc" "tc < tp"
  shows "\<exists>s. completionRate (num tp) (num tc) = Num s \<and> 0 \<le> s \<and> s \<le> 100
            \<and> \<bar>s - 100 * of_nat tc / of_nat tp\<bar> \<le> 1 / 2 ^ 45"
proof -
  define a :: rat where "a = of_nat tc / of_nat tp"
  have d: "num_div (num tc) (num tp) = binary64 a" using assms by (simp add: num_def a_def)
  have "0 \<le> a" "a \<le> 1" using assms by (simp_all add: a_def)
  from ramp [OF this] obtain s where s: "num_mul (binary64 a) (Num 100) = Num s"
    "0 \<le> s" "s \<le> 100" "\<bar>s - 100 * a\<bar> \<le> 1 / 2 ^ 45" by blast
  have "completionRate (num tp) (num tc) = Num s" using s(3) by (simp add: completionRate_def d s(1))
  then show ?thesis using s by (auto simp: a_def)
qed

lemma taskScore_exact: "taskScore (num tc) = Num (min 100 (of_nat tc * 20))"
proof (cases "5 \<le> tc")
  case True
  then have "(100::rat) \<le> of_nat tc * 20" by simp
  from binary64_ge [OF this]
  have "binary64 (of_nat tc * 20) = PosInf \<or> (\<exists>r. binary64 (of_nat tc * 20) = Num r \<and> 100 \<le> r)"
    by simp
  then show ?thesis using True by (auto simp: taskScore_def num_def)
next
  case False
  then have "tc * 20 < 2 ^ 53" by simp
  from rnd_nat [OF this] have r: "rnd (of_nat tc * 20) = of_nat tc * 20" by simp
  have "\<bar>(of_nat tc :: rat) * 20\<bar> \<le> 2 ^ 53" using False by simp
  from num_mul_finite [OF this] show ?thesis using False by (simp add: taskScore_def num_def r)
qed

lemma task_sub:
  assumes "0 < tc"
  shows "\<exists>s. (if 0 < tp then completionRate (num tp) (num tc) else taskScore (num tc)) = Num s
            \<and> 0 \<le> s \<and> s \<le> 100 \<and> \<bar>s - task_subscore_spec tp tc\<bar> \<le> 1 / 2 ^ 45"
proof -
  consider "tp = 0" | "0 < tp" "tp \<le> tc" | "0 < tp" "tc < tp" by linarith
  then show ?thesis
  proof cases
    case 1
    then show ?thesis using assms by (simp add: taskScore_exact task_subscore_spec_def)
  next
    case 2
    then have "(1::rat) \<le> of_nat tc / of_nat tp" by simp
    then have "(100::rat) \<le> 100 * (of_nat tc / of_nat tp)" by linarith
    then have "min 100 (100 * of_nat tc / of_nat tp) = (100::rat)" by simp
    then show ?thesis using 2 assms
      by (simp add: completionRate_capped task_subscore_spec_def)
  next
    case 3
    then have "(of_nat tc :: rat) / of_nat tp \<le> 1" by simp
    then have "100 * ((of_nat tc :: rat) / of_nat tp) \<le> 100" by linarith
    then have "min 100 (100 * of_nat tc / of_nat tp) = (100 * of_nat tc / of_nat tp :: rat)"
      by simp
    with completionRate_ramp [OF assms 3(2)] show ?thesis
      using 3 assms by (simp add: task_subscore_spec_def)
  qed
qed


subsection \<open>The pomodoro sub-score\<close>

lemma pomodoroScore_low:
  assumes "p < 6"
  shows "\<exists>s. pomodoroScore (num p) = Num s \<and> 0 \<le> s \<and> s \<le> 100
            \<and> \<bar>s - 100 * of_nat p / 6\<bar> \<le> 1 / 2 ^ 45"
proof -
  define a :: rat where "a = of_nat p / 6"
  have "0 \<le> a" "a \<le> 1" using assms by (simp_all add: a_def)
  from ramp [OF this] obtain s where s: "num_mul (binary64 a) (Num 100) = Num s"
    "0 \<le> s" "s \<le> 100" "\<bar>s - 100 * a\<bar> \<le> 1 / 2 ^ 45" by blast
  have "pomodoroScore (num p) = Num s"
    using assms s(1) by (simp add: pomodoroScore_def num_def a_def)
  then show ?thesis using s by (auto simp: a_def)
qed

lemma pomodoroScore_ideal:
  assumes "6 \<le> p" "p \<le> 10" shows "pomodoroScore (num p) = Num 100"
  using assms by (simp add: pomodoroScore_def num_def num_greater_def)

lemma pomodoroScore_penalty:
  "pomodoroScore (num 11) = Num 95" "pomodoroScore (num 12) = Num 90"
  "pomodoroScore (num 13) = Num 85" "pomodoroScore (num 14) = Num 80"
  "pomodoroScore (num 15) = Num 75" "pomodoroScore (num 16) = Num 70"
  by code_simp+

lemma pomodoroScore_floor:
  assumes "17 \<le> p" shows "pomodoroScore (num p) = Num 70"
proof -
  have gt: "num_greater (num p) (Num 10)" "\<not> num_less (num p) (Num 6)"
    using assms by (simp_all add: num_greater_def num_def)
  have "(7::rat) \<le> of_nat p - 10" using assms by simp
  from binary64_ge [OF this]
  consider "binary64 (of_nat p - 10) = PosInf"
    | r where "binary64 (of_nat p - 10) = Num r" "7 \<le> r" by auto
  then have "num_mul (binary64 (of_nat p - 10)) (Num 5) = PosInf
     \<or> (\<exists>r'. num_mul (binary64 (of_nat p - 10)) (Num 5) = Num r' \<and> 35 \<le> r')"
  proof cases
    case 1
    then show ?thesis by (simp add: inf_of_sign_def)
  next
    case 2
    have "35 \<le> r * 5" using 2 by simp
    from binary64_ge [OF this] show ?thesis using 2 by simp
  qed
  then consider "num_mul (binary64 (of_nat p - 10)) (Num 5) = PosInf"
    | r' where "num_mul (binary64 (of_nat p - 10)) (Num 5) = Num r'" "35 \<le> r'" by auto
  then have "Math_max (Num 70) (num_sub (Num 100) (num_mul (binary64 (of_nat p - 10)) (Num 5)))
     = Num 70"
  proof cases
    case 1
    then show ?thesis by (simp add: num_sub_def)
  next
    case 2
    have "100 - r' \<le> 65" using 2 by simp
    from binary64_le [OF this]
    have "binary64 (100 - r') = NegInf \<or> (\<exists>r''. binary64 (100 - r') = Num r'' \<and> r'' \<le> 65)"
      by simp
    then show ?thesis using 2 by (auto simp: num_sub_Num)
  qed
  then show ?thesis using gt by (simp add: pomodoroScore_def num_sub_Num [of _ 10] num_def)
qed

lemma pomodoroScore_exact:
  assumes "6 \<le> p" shows "pomodoroScore (num p) = Num (pomodoro_subscore_spec p)"
proof -
  consider "p \<le> 10" | "p = 11" | "p = 12" | "p = 13" | "p = 14" | "p = 15" | "p = 16" | "17 \<le> p"
    by linarith
  then show ?thesis
  proof cases
    case 1
    then show ?thesis using assms by (simp add: pomodoroScore_ideal pomodoro_subscore_spec_def)
  next
    case 8
    then have "100 - 5 * (of_nat p - 10) \<le> (70::rat)" by simp
    then show ?thesis using 8 by (simp add: pomodoroScore_floor pomodoro_subscore_spec_def)
  qed (simp_all add: pomodoroScore_penalty pomodoro_subscore_spec_def)
qed

lemma pomodoro_sub:
  assumes "0 < p"
  shows "\<exists>s. pomodoroScore (num p) = Num s \<and> 0 \<le> s \<and> s \<le> 100
            \<and> \<bar>s - pomodoro_subscore_spec p\<bar> \<le> 1 / 2 ^ 45"
proof (cases "p < 6")
  case True
  from pomodoroScore_low [OF this] show ?thesis using True assms
    by (simp add: pomodoro_subscore_spec_def)
next
  case False
  then have "pomodoroScore (num p) = Num (pomodoro_subscore_spec p)"
    by (intro pomodoroScore_exact) simp
  moreover have "0 \<le> pomodoro_subscore_spec p" "pomodoro_subscore_spec p \<le> 100"
    using False by (auto simp: pomodoro_subscore_spec_def max_def)
  ultimately show ?thesis by simp
qed


subsection \<open>The focus sub-score\<close>

lemma focusScore_low:
  assumes "f < 120"
  shows "\<exists>s. focusScore (num f) = Num s \<and> 0 \<le> s \<and> s \<le> 100
            \<and> \<bar>s - 100 * of_nat f / 120\<bar> \<le> 1 / 2 ^ 45"
proof -
  define a :: rat where "a = of_nat f / 120"
  have "0 \<le> a" "a \<le> 1" using assms by (simp_all add: a_def)
  from ramp [OF this] obtain s where s: "num_mul (binary64 a) (Num 100) = Num s"
    "0 \<le> s" "s \<le> 100" "\<bar>s - 100 * a\<bar> \<le> 1 / 2 ^ 45" by blast
  have "focusScore (num f) = Num s"
    using assms s(1) by (simp add: focusScore_def num_def a_def)
  then show ?thesis using s by (auto simp: a_def)
qed

lemma focusScore_ideal:
  assumes "120 \<le> f" "f \<le> 360" shows "focusScore (num f) = Num 100"
  using assms by (simp add: focusScore_def num_def num_greater_def)

lemma focusScore_high:
  assumes "360 < f" "f < 760"
  shows "\<exists>s. focusScore (num f) = Num s \<and> 80 \<le> s \<and> s \<le> 100
            \<and> \<bar>s - max 80 (100 - 3 * ((of_nat f - 360) / 60))\<bar> \<le> 1 / 2 ^ 45"
proof -
  define d :: rat where "d = of_nat f - 360"
  have d0: "0 \<le> d" and d1: "d \<le> 400" using assms by (simp_all add: d_def)
  have "d = of_int (int f - 360)" by (simp add: d_def)
  moreover have "rnd (of_int (int f - 360)) = of_int (int f - 360)"
    using assms by (intro rnd_int) simp
  ultimately have rd: "rnd d = d" by simp
  have "\<bar>d\<bar> \<le> 2 ^ 53" using d0 d1 by simp
  then have bd: "binary64 d = Num d" using rd by (simp add: binary64_finite)
  define g where "g = rnd (d / 60)"
  have "\<bar>d / 60\<bar> \<le> 2 ^ 53" using d0 d1 by simp
  then have bg: "binary64 (d / 60) = Num g" by (simp add: binary64_finite g_def)
  have g0: "0 \<le> g" unfolding g_def using d0 by (intro rnd_nonneg) simp
  have "d / 60 \<le> 8" using d1 by simp
  from rnd_mono [OF this] have g1: "g \<le> 8" by (simp add: g_def)
  have "\<bar>d / 60\<bar> \<le> 8" using d0 d1 by simp
  from rnd_err [OF this] have ge: "\<bar>g - d / 60\<bar> \<le> 8 / 9007199254740992" by (simp add: g_def)
  define h where "h = rnd (g * 3)"
  have "\<bar>g * 3\<bar> \<le> 2 ^ 53" using g0 g1 by simp
  then have bh: "binary64 (g * 3) = Num h" by (simp add: binary64_finite h_def)
  have h0: "0 \<le> h" unfolding h_def using g0 by (intro rnd_nonneg) simp
  have "g * 3 \<le> 32" using g1 by simp
  from rnd_mono [OF this] have h1: "h \<le> 32" by (simp add: h_def)
  have "\<bar>g * 3\<bar> \<le> 32" using g0 g1 by linarith
  from rnd_err [OF this] have he: "\<bar>h - g * 3\<bar> \<le> 32 / 9007199254740992" by (simp add: h_def)
  define i where "i = rnd (100 - h)"
  have "\<bar>100 - h\<bar> \<le> 2 ^ 53" using h0 h1 by simp
  then have bi: "binary64 (100 - h) = Num i" by (simp add: binary64_finite i_def)
  have "0 \<le> 100 - h" using h1 by simp
  from rnd_nonneg [OF this] have i0: "0 \<le> i" by (simp add: i_def)
  have "100 - h \<le> 100" using h0 by simp
  from rnd_mono [OF this] have i1: "i \<le> 100" by (simp add: i_def)
  have "\<bar>100 - h\<bar> \<le> 128" using h0 h1 by linarith
  from rnd_err [OF this] have ie: "\<bar>i - (100 - h)\<bar> \<le> 128 / 9007199254740992"
    by (simp add: i_def)
  have e: "\<bar>i - (100 - 3 * (d / 60))\<bar> \<le> 1 / 35184372088832" using ie he ge by linarith
  have "focusScore (num f) = Math_max (Num 80) (Num i)"
    using assms by (simp add: focusScore_def num_def num_greater_def num_sub_Num
        d_def [symmetric] bd bg bh bi)
  then have "focusScore (num f) = Num (max 80 i)" by (simp add: max_def)
  moreover have "\<bar>max 80 i - max 80 (100 - 3 * (d / 60))\<bar> \<le> 1 / 35184372088832"
    using e by linarith
  then have "\<bar>max 80 i - max 80 (100 - 3 * ((of_nat f - 360) / 60))\<bar> \<le> 1 / 2 ^ 45"
    by (simp add: d_def)
  moreover have "80 \<le> max 80 i" "max 80 i \<le> 100" using i1 by simp_all
  ultimately show ?thesis by blast
qed

lemma rnd_focus_bounds:
  "rnd (20 / 3) = 7505999378950827 / 1125899906842624"
  "rnd (7505999378950827 / 1125899906842624 * 3) = 20"
  by code_simp+

lemma focusScore_floor:
  assumes "760 \<le> f" shows "focusScore (num f) = Num 80"
proof -
  have gt: "num_greater (num f) (Num 360)" "\<not> num_less (num f) (Num 120)"
    using assms by (simp_all add: num_greater_def num_def)
  define X where "X = binary64 (of_nat f - 360)"
  define Y where "Y = num_div X (Num 60)"
  define Z where "Z = num_mul Y (Num 3)"
  have "(400::rat) \<le> of_nat f - 360" using assms by simp
  from binary64_ge [OF this]
  consider "X = PosInf" | d where "X = Num d" "400 \<le> d" by (auto simp: X_def)
  then have "Y = PosInf \<or> (\<exists>g. Y = Num g \<and> 7505999378950827 / 1125899906842624 \<le> g)"
  proof cases
    case 1
    then show ?thesis by (simp add: Y_def inf_of_sign_def)
  next
    case 2
    have "20 / 3 \<le> d / 60" using 2 by simp
    from binary64_ge [OF this]
    have "binary64 (d / 60) = PosInf
       \<or> (\<exists>g. binary64 (d / 60) = Num g \<and> 7505999378950827 / 1125899906842624 \<le> g)"
      by (simp only: rnd_focus_bounds)
    then show ?thesis using 2 by (simp add: Y_def)
  qed
  then consider "Y = PosInf" | g where "Y = Num g" "7505999378950827 / 1125899906842624 \<le> g"
    by auto
  then have "Z = PosInf \<or> (\<exists>h. Z = Num h \<and> 20 \<le> h)"
  proof cases
    case 1
    then show ?thesis by (simp add: Z_def inf_of_sign_def)
  next
    case 2
    have "7505999378950827 / 1125899906842624 * 3 \<le> g * 3" using 2 by simp
    from binary64_ge [OF this]
    have "binary64 (g * 3) = PosInf \<or> (\<exists>h. binary64 (g * 3) = Num h \<and> 20 \<le> h)"
      by (simp only: rnd_focus_bounds)
    then show ?thesis using 2 by (simp add: Z_def)
  qed
  then consider "Z = PosInf" | h where "Z = Num h" "20 \<le> h" by auto
  then have "Math_max (Num 80) (num_sub (Num 100) Z) = Num 80"
  proof cases
    case 1
    then show ?thesis by (simp add: num_sub_def)
  next
    case 2
    have "100 - h \<le> 80" using 2 by simp
    from binary64_le [OF this]
    have "binary64 (100 - h) = NegInf \<or> (\<exists>i. binary64 (100 - h) = Num i \<and> i \<le> 80)" by simp
    then show ?thesis using 2 by (auto simp: num_sub_Num)
  qed
  then show ?thesis
    using gt by (simp add: focusScore_def num_sub_Num [of _ 360] num_def X_def Y_def Z_def)
qed

lemma focus_sub:
  assumes "0 < f"
  shows "\<exists>s. focusScore (num f) = Num s \<and> 0 \<le> s \<and> s \<le> 100
            \<and> \<bar>s - focus_subscore_spec f\<bar> \<le> 1 / 2 ^ 45"
proof -
  consider "f < 120" | "120 \<le> f" "f \<le> 360" | "360 < f" "f < 760" | "760 \<le> f" by linarith
  then show ?thesis
  proof cases
    case 1
    from focusScore_low [OF this] show ?thesis using 1 assms
      by (simp add: focus_subscore_spec_def)
  next
    case 2
    then show ?thesis by (simp add: focusScore_ideal focus_subscore_spec_def)
  next
    case 3
    from focusScore_high [OF this] obtain s where "focusScore (num f) = Num s" "80 \<le> s"
      "s \<le> 100" "\<bar>s - max 80 (100 - 3 * ((of_nat f - 360) / 60))\<bar> \<le> 1 / 2 ^ 45" by blast
    moreover from this(2) have "0 \<le> s" by simp
    ultimately show ?thesis using 3 by (auto simp: focus_subscore_spec_def)
  next
    case 4
    then have "100 - 3 * ((of_nat f - 360) / 60) \<le> (80::rat)" by simp
    then show ?thesis using 4 by (simp add: focusScore_floor focus_subscore_spec_def)
  qed
qed


subsection \<open>Weighting and accumulating\<close>

lemma weighted35:
  assumes "0 \<le> s" "s \<le> 100" "\<bar>s - S\<bar> \<le> 1 / 2 ^ 45"
  shows "\<exists>c. num_mul (Num s) (literal (35 / 100)) = Num c \<and> 0 \<le> c \<and> c \<le> 35
            \<and> \<bar>c - 35 / 100 * S\<bar> \<le> 1 / 2 ^ 44"
proof -
  define c where "c = rnd (s * (3152519739159347 / 9007199254740992))"
  have "\<bar>s * (3152519739159347 / 9007199254740992)\<bar> \<le> 2 ^ 53" using assms(1,2) by simp
  then have m: "num_mul (Num s) (literal (35 / 100)) = Num c"
    unfolding lit35 c_def by (rule num_mul_finite)
  have c0: "0 \<le> c" unfolding c_def using assms(1) by (intro rnd_nonneg) simp
  have "s * (3152519739159347 / 9007199254740992) \<le> 35" using assms(2) by simp
  from rnd_mono [OF this] have c1: "c \<le> 35" by (simp add: c_def)
  have "\<bar>s * (3152519739159347 / 9007199254740992)\<bar> \<le> 64" using assms(1,2) by simp
  from rnd_err [OF this]
  have ce: "\<bar>c - s * (3152519739159347 / 9007199254740992)\<bar> \<le> 64 / 9007199254740992"
    by (simp add: c_def)
  have se: "\<bar>s - S\<bar> \<le> 1 / 35184372088832" using assms(3) by simp
  have "\<bar>c - 35 / 100 * S\<bar> \<le> 1 / 17592186044416" using ce se assms(1,2) by linarith
  then have "\<bar>c - 35 / 100 * S\<bar> \<le> 1 / 2 ^ 44" by simp
  then show ?thesis using m c0 c1 by blast
qed

lemma weighted30:
  assumes "0 \<le> s" "s \<le> 100" "\<bar>s - S\<bar> \<le> 1 / 2 ^ 45"
  shows "\<exists>c. num_mul (Num s) (literal (30 / 100)) = Num c \<and> 0 \<le> c \<and> c \<le> 30
            \<and> \<bar>c - 30 / 100 * S\<bar> \<le> 1 / 2 ^ 44"
proof -
  define c where "c = rnd (s * (5404319552844595 / 18014398509481984))"
  have "\<bar>s * (5404319552844595 / 18014398509481984)\<bar> \<le> 2 ^ 53" using assms(1,2) by simp
  then have m: "num_mul (Num s) (literal (30 / 100)) = Num c"
    unfolding lit30 c_def by (rule num_mul_finite)
  have c0: "0 \<le> c" unfolding c_def using assms(1) by (intro rnd_nonneg) simp
  have "s * (5404319552844595 / 18014398509481984) \<le> 30" using assms(2) by simp
  from rnd_mono [OF this] have c1: "c \<le> 30" by (simp add: c_def)
  have "\<bar>s * (5404319552844595 / 18014398509481984)\<bar> \<le> 64" using assms(1,2) by simp
  from rnd_err [OF this]
  have ce: "\<bar>c - s * (5404319552844595 / 18014398509481984)\<bar> \<le> 64 / 9007199254740992"
    by (simp add: c_def)
  have se: "\<bar>s - S\<bar> \<le> 1 / 35184372088832" using assms(3) by simp
  have "\<bar>c - 30 / 100 * S\<bar> \<le> 1 / 17592186044416" using ce se assms(1,2) by linarith
  then have "\<bar>c - 30 / 100 * S\<bar> \<le> 1 / 2 ^ 44" by simp
  then show ?thesis using m c0 c1 by blast
qed

lemma accumulate:
  assumes "0 \<le> e" "e \<le> A" "0 \<le> c" "c \<le> C" "rnd (A + C) = A + C" "A + C \<le> 128"
  shows "\<exists>e'. num_add (Num e) (Num c) = Num e' \<and> 0 \<le> e' \<and> e' \<le> A + C
            \<and> \<bar>e' - (e + c)\<bar> \<le> 1 / 2 ^ 46"
proof -
  define e' where "e' = rnd (e + c)"
  have b: "\<bar>e + c\<bar> \<le> 128" using assms by linarith
  then have "\<bar>e + c\<bar> \<le> 2 ^ 53" by simp
  from num_add_finite [OF this] have m: "num_add (Num e) (Num c) = Num e'" by (simp add: e'_def)
  have e0: "0 \<le> e'" unfolding e'_def using assms by (intro rnd_nonneg) simp
  have "e + c \<le> A + C" using assms by linarith
  from rnd_mono [OF this] have e1: "e' \<le> A + C" by (simp add: e'_def assms(5))
  from rnd_err [OF b] have "\<bar>e' - (e + c)\<bar> \<le> 128 / 9007199254740992" by (simp add: e'_def)
  then have "\<bar>e' - (e + c)\<bar> \<le> 1 / 2 ^ 46" by simp
  then show ?thesis using m e0 e1 by blast
qed

lemma stage35:
  assumes sub: "sc = Num s" "0 \<le> s" "s \<le> 100" "\<bar>s - S\<bar> \<le> 1 / 2 ^ 45"
    and acc: "0 \<le> e" "e \<le> A" "rnd (A + 35) = A + 35" "A \<le> 35"
  shows "\<exists>e'. num_add (Num e) (num_mul sc (literal (35 / 100))) = Num e' \<and> 0 \<le> e'
             \<and> e' \<le> A + 35 \<and> \<bar>e' - (e + 35 / 100 * S)\<bar> \<le> 1 / 2 ^ 43"
proof -
  from weighted35 [OF sub(2-4)] obtain c where c: "num_mul (Num s) (literal (35 / 100)) = Num c"
    "0 \<le> c" "c \<le> 35" "\<bar>c - 35 / 100 * S\<bar> \<le> 1 / 2 ^ 44" by blast
  have "A + 35 \<le> 128" using acc(4) by simp
  from accumulate [OF acc(1,2) c(2,3) acc(3) this]
  obtain e' where e': "num_add (Num e) (Num c) = Num e'" "0 \<le> e'" "e' \<le> A + 35"
    "\<bar>e' - (e + c)\<bar> \<le> 1 / 2 ^ 46" by blast
  have "\<bar>c - 35 / 100 * S\<bar> \<le> 1 / 17592186044416" using c(4) by simp
  moreover have "\<bar>e' - (e + c)\<bar> \<le> 1 / 70368744177664" using e'(4) by simp
  ultimately have "\<bar>e' - (e + 35 / 100 * S)\<bar> \<le> 1 / 8796093022208" by linarith
  then have "\<bar>e' - (e + 35 / 100 * S)\<bar> \<le> 1 / 2 ^ 43" by simp
  then show ?thesis using e' c(1) sub(1) by auto
qed

lemma stage30:
  assumes sub: "sc = Num s" "0 \<le> s" "s \<le> 100" "\<bar>s - S\<bar> \<le> 1 / 2 ^ 45"
    and acc: "0 \<le> e" "e \<le> 70"
  shows "\<exists>e'. num_add (Num e) (num_mul sc (literal (30 / 100))) = Num e' \<and> 0 \<le> e'
             \<and> e' \<le> 100 \<and> \<bar>e' - (e + 30 / 100 * S)\<bar> \<le> 1 / 2 ^ 43"
proof -
  from weighted30 [OF sub(2-4)] obtain c where c: "num_mul (Num s) (literal (30 / 100)) = Num c"
    "0 \<le> c" "c \<le> 30" "\<bar>c - 30 / 100 * S\<bar> \<le> 1 / 2 ^ 44" by blast
  have r: "rnd (70 + 30) = 70 + 30" by simp
  from accumulate [OF acc(1,2) c(2,3) r]
  obtain e' where e': "num_add (Num e) (Num c) = Num e'" "0 \<le> e'" "e' \<le> 70 + 30"
    "\<bar>e' - (e + c)\<bar> \<le> 1 / 2 ^ 46" by auto
  have "\<bar>c - 30 / 100 * S\<bar> \<le> 1 / 17592186044416" using c(4) by simp
  moreover have "\<bar>e' - (e + c)\<bar> \<le> 1 / 70368744177664" using e'(4) by simp
  ultimately have "\<bar>e' - (e + 30 / 100 * S)\<bar> \<le> 1 / 8796093022208" by linarith
  then have "\<bar>e' - (e + 30 / 100 * S)\<bar> \<le> 1 / 2 ^ 43" by simp
  then show ?thesis using e' c(1) sub(1) by auto
qed


subsection \<open>The weighted sum\<close>

lemma efficiency_sum_close:
  "\<exists>e. efficiency_sum (num tp) (num tc) (num p) (num f) = Num e \<and> 0 \<le> e \<and> e \<le> 100
       \<and> \<bar>e - weighted_sum_spec tp tc p f\<bar> \<le> 1 / 2 ^ 40"
proof -
  define T where "T = (if 0 < tp then completionRate (num tp) (num tc) else taskScore (num tc))"
  define E1 where "E1 = (if 0 < tc then num_add (Num 0) (num_mul T (literal (35 / 100))) else Num 0)"
  define E2 where "E2 = (if 0 < p then num_add E1 (num_mul (pomodoroScore (num p))
     (literal (35 / 100))) else E1)"
  define E3 where "E3 = (if 0 < f then num_add E2 (num_mul (focusScore (num f))
     (literal (30 / 100))) else E2)"
  have unfold: "efficiency_sum (num tp) (num tc) (num p) (num f) = E3"
    unfolding efficiency_sum_def Let_def E3_def E2_def E1_def T_def num_greater_num
    by (cases "0 < tp") (simp_all only: if_True if_False)
  obtain e1 where e1: "E1 = Num e1" "0 \<le> e1" "e1 \<le> 35"
    "\<bar>e1 - 35 / 100 * task_subscore_spec tp tc\<bar> \<le> 1 / 2 ^ 43"
  proof (cases "0 < tc")
    case True
    from task_sub [OF True, of tp] obtain s where s: "T = Num s" "0 \<le> s" "s \<le> 100"
      "\<bar>s - task_subscore_spec tp tc\<bar> \<le> 1 / 2 ^ 45" unfolding T_def by blast
    have "rnd (0 + 35) = 0 + 35" "(0::rat) \<le> 0" "(0::rat) \<le> 35" by simp_all
    from stage35 [OF s this(2) this(2) this(1) this(3)]
    obtain e' where "num_add (Num 0) (num_mul T (literal (35 / 100))) = Num e'" "0 \<le> e'"
      "e' \<le> 0 + 35" "\<bar>e' - (0 + 35 / 100 * task_subscore_spec tp tc)\<bar> \<le> 1 / 2 ^ 43" by blast
    then have "E1 = Num e'" "0 \<le> e'" "e' \<le> 35"
      "\<bar>e' - 35 / 100 * task_subscore_spec tp tc\<bar> \<le> 1 / 2 ^ 43"
      using True by (simp_all add: E1_def)
    then show ?thesis by (rule that)
  next
    case False
    then have "E1 = Num 0" "task_subscore_spec tp tc = 0"
      by (simp_all add: E1_def task_subscore_spec_def)
    then show ?thesis using that [of 0] by simp
  qed
  obtain e2 where e2: "E2 = Num e2" "0 \<le> e2" "e2 \<le> 70"
    "\<bar>e2 - (e1 + 35 / 100 * pomodoro_subscore_spec p)\<bar> \<le> 1 / 2 ^ 43"
  proof (cases "0 < p")
    case True
    from pomodoro_sub [OF True] obtain s where s: "pomodoroScore (num p) = Num s" "0 \<le> s"
      "s \<le> 100" "\<bar>s - pomodoro_subscore_spec p\<bar> \<le> 1 / 2 ^ 45" by blast
    have "rnd (35 + 35) = 35 + 35" "(35::rat) \<le> 35" by simp_all
    from stage35 [OF s e1(2) e1(3) this]
    obtain e' where "num_add (Num e1) (num_mul (pomodoroScore (num p)) (literal (35 / 100)))
        = Num e'" "0 \<le> e'"
      "e' \<le> 35 + 35" "\<bar>e' - (e1 + 35 / 100 * pomodoro_subscore_spec p)\<bar> \<le> 1 / 2 ^ 43" by blast
    then have "E2 = Num e'" "0 \<le> e'" "e' \<le> 70"
      "\<bar>e' - (e1 + 35 / 100 * pomodoro_subscore_spec p)\<bar> \<le> 1 / 2 ^ 43"
      using True by (simp_all add: E2_def e1(1))
    then show ?thesis by (rule that)
  next
    case False
    then have "E2 = Num e1" "pomodoro_subscore_spec p = 0"
      by (simp_all add: E2_def pomodoro_subscore_spec_def e1(1))
    then show ?thesis using that [of e1] e1 by simp
  qed
  obtain e3 where e3: "E3 = Num e3" "0 \<le> e3" "e3 \<le> 100"
    "\<bar>e3 - (e2 + 30 / 100 * focus_subscore_spec f)\<bar> \<le> 1 / 2 ^ 43"
  proof (cases "0 < f")
    case True
    from focus_sub [OF True] obtain s where s: "focusScore (num f) = Num s" "0 \<le> s"
      "s \<le> 100" "\<bar>s - focus_subscore_spec f\<bar> \<le> 1 / 2 ^ 45" by blast
    from stage30 [OF s e2(2) e2(3)]
    obtain e' where "num_add (Num e2) (num_mul (focusScore (num f)) (literal (30 / 100)))
        = Num e'" "0 \<le> e'"
      "e' \<le> 100" "\<bar>e' - (e2 + 30 / 100 * focus_subscore_spec f)\<bar> \<le> 1 / 2 ^ 43" by blast
    then have "E3 = Num e'" "0 \<le> e'" "e' \<le> 100"
      "\<bar>e' - (e2 + 30 / 100 * focus_subscore_spec f)\<bar> \<le> 1 / 2 ^ 43"
      using True by (simp_all add: E3_def e2(1))
    then show ?thesis by (rule that)
  next
    case False
    then have "E3 = Num e2" "focus_subscore_spec f = 0"
      by (simp_all add: E3_def focus_subscore_spec_def e2(1))
    then show ?thesis using that [of e2] e2 by simp
  qed
  have "\<bar>e1 - 35 / 100 * task_subscore_spec tp tc\<bar> \<le> 1 / 8796093022208"
    "\<bar>e2 - (e1 + 35 / 100 * pomodoro_subscore_spec p)\<bar> \<le> 1 / 8796093022208"
    "\<bar>e3 - (e2 + 30 / 100 * focus_subscore_spec f)\<bar> \<le> 1 / 8796093022208"
    using e1(4) e2(4) e3(4) by simp_all
  then have "\<bar>e3 - weighted_sum_spec tp tc p f\<bar> \<le> 1 / 1099511627776"
    unfolding weighted_sum_spec_def by linarith
  then have "\<bar>e3 - weighted_sum_spec tp tc p f\<bar> \<le> 1 / 2 ^ 40" by simp
  then show ?thesis using unfold e3 by auto
qed

lemma round_nearest_zero [simp]: "round_nearest 0 = 0"
  unfolding round_nearest_def by (rule floor_unique) simp_all

lemma round_nearest_stable:
  assumes "\<bar>e - W\<bar> \<le> d" "d < frac (W + 1 / 2)" "frac (W + 1 / 2) < 1 - d"
  shows "round_nearest e = round_nearest W"
proof -
  define n where "n = \<lfloor>W + 1 / 2\<rfloor>"
  have f: "frac (W + 1 / 2) = W + 1 / 2 - of_int n" by (simp add: frac_def n_def)
  have "of_int n \<le> e + 1 / 2" "e + 1 / 2 < of_int n + 1" using assms f by linarith+
  then have "\<lfloor>e + 1 / 2\<rfloor> = n" by (rule floor_unique)
  then show ?thesis by (simp add: round_nearest_def n_def)
qed

lemma round_nearest_bounds:
  "of_int (round_nearest e) \<le> e + 1 / 2" "e - 1 / 2 < of_int (round_nearest e)"
  unfolding round_nearest_def using floor_correct [of "e + 1 / 2"] by linarith+

lemma round_nearest_range:
  assumes "0 \<le> e" "e \<le> 100" shows "0 \<le> round_nearest e" "round_nearest e \<le> 100"
proof -
  show "0 \<le> round_nearest e" unfolding round_nearest_def using assms by simp
  have "e + 1 / 2 < of_int 101" using assms by simp
  then have "\<lfloor>e + 1 / 2\<rfloor> < 101" by (simp only: floor_less_iff)
  then show "round_nearest e \<le> 100" by (simp add: round_nearest_def)
qed

lemma efficiency_of_close:
  "\<exists>e. efficiency_of tp tc p f = Num (of_int (round_nearest e)) \<and> 0 \<le> e \<and> e \<le> 100
       \<and> \<bar>e - weighted_sum_spec tp tc p f\<bar> \<le> 1 / 2 ^ 40"
proof (cases "tc = 0 \<and> p = 0 \<and> f = 0")
  case True
  then have "efficiency_of tp tc p f = Num (of_int (round_nearest 0))"
    by (simp add: efficiency_of_def calculateEfficiency_def)
  moreover have "weighted_sum_spec tp tc p f = 0"
    using True by (simp add: weighted_sum_spec_def task_subscore_spec_def
        pomodoro_subscore_spec_def focus_subscore_spec_def)
  ultimately show ?thesis by (intro exI [of _ 0]) simp
next
  case False
  from efficiency_sum_close [of tp tc p f] obtain e where
    e: "efficiency_sum (num tp) (num tc) (num p) (num f) = Num e" "0 \<le> e" "e \<le> 100"
       "\<bar>e - weighted_sum_spec tp tc p f\<bar> \<le> 1 / 2 ^ 40" by blast
  have c: "Math_min (Num 100) (Math_max (Num 0) (Num e)) = Num e" using e(2,3) by simp
  have "efficiency_of tp tc p f = Math_round (Math_min (Num 100) (Math_max (Num 0)
      (efficiency_sum (num tp) (num tc) (num p) (num f))))"
    using False by (auto simp: efficiency_of_def calculateEfficiency_def)
  then have "efficiency_of tp tc p f = Num (of_int (round_nearest e))"
    by (simp only: e(1) c Math_round.simps round_nearest_def)
  then show ?thesis using e by blast
qed

section \<open>The claims about the calculator\<close>

text \<open>Leaving \<^verbatim>\<open>tasksPlanned\<close> out is passing 0.\<close>

lemma calculateEfficiency_default_tasksPlanned:
  "calculateEfficiency \<lparr>tasksPlanned = None, tasksCompleted = a, pomodorosSessions = b,
      focusTime = c\<rparr>
   = calculateEfficiency \<lparr>tasksPlanned = Some (Num 0), tasksCompleted = a,
      pomodorosSessions = b, focusTime = c\<rparr>"
  by (simp add: calculateEfficiency_def)

lemma efficiency_of_task_only:
  "0 < tc \<Longrightarrow> efficiency_of tp tc 0 0 =
     Math_round (Math_min (Num 100) (Math_max (Num 0) (num_add (Num 0)
       (num_mul (if 0 < tp then completionRate (num tp) (num tc) else taskScore (num tc))
          (literal (35 / 100))))))"
  unfolding efficiency_of_def calculateEfficiency_def efficiency_sum_def Let_def
  by (cases "0 < tp") (simp_all del: Math_round.simps Math_min.simps Math_max.simps num_add.simps num_mul.simps)

lemma efficiency_of_pomodoro_only:
  "0 < p \<Longrightarrow> efficiency_of tp 0 p 0 =
     Math_round (Math_min (Num 100) (Math_max (Num 0) (num_add (Num 0)
       (num_mul (pomodoroScore (num p)) (literal (35 / 100))))))"
  unfolding efficiency_of_def calculateEfficiency_def efficiency_sum_def Let_def
  by (simp del: Math_round.simps Math_min.simps Math_max.simps num_add.simps num_mul.simps)

lemma weighted_values:
  "Math_round (Math_min (Num 100) (Math_max (Num 0) (num_add (Num 0)
       (num_mul (Num 100) (literal (35 / 100)))))) = Num 35"
  "Math_round (Math_min (Num 100) (Math_max (Num 0) (num_add (Num 0)
       (num_mul (Num 70) (literal (35 / 100)))))) = Num 25"
  by code_simp+


lemma round_nearest_within: "\<bar>of_int (round_nearest e) - e\<bar> \<le> 1 / 2"
  using round_nearest_bounds [of e] by linarith

text \<open>
  C2. On every four non-negative integers the calculator returns a number that is an integer
  between 0 and 100: never NaN, never an infinity.
\<close>

theorem calculateEfficiency_range:
  "\<exists>k. efficiency_of tp tc p f = Num (of_int k) \<and> 0 \<le> k \<and> k \<le> 100"
proof -
  from efficiency_of_close [of tp tc p f] obtain e where
    e: "efficiency_of tp tc p f = Num (of_int (round_nearest e))" "0 \<le> e" "e \<le> 100" by blast
  from round_nearest_range [OF e(2,3)] e(1) show ?thesis by blast
qed

text \<open>
  C4, as the claim states it: with no pomodoro session and no focus time the score is the
  nearest integer to 0.35 times the task sub-score. Nine of ten planned tasks give the sub-score
  90 and 0.35 \<times> 90 = 31.5, whose nearest integer is 32; the code returns 31, because its
  \<^verbatim>\<open>0.35\<close> lies below 0.35 and \<^verbatim>\<open>90 * 0.35\<close> is \<^verbatim>\<open>31.499999999999996\<close>.
\<close>

theorem task_subscore_counterexample:
  "efficiency_of 10 9 0 0 = Num 31
   \<and> round_nearest (35 / 100 * task_subscore_spec 10 9) = 32
   \<and> efficiency_of 10 9 0 0 \<noteq> Num (of_int (round_nearest (35 / 100 * task_subscore_spec 10 9)))"
  by code_simp

text \<open>
  C4, amended. For every input with a completed task: the task sub-score of the code is within
  \<open>2\<^sup>-\<^sup>4\<^sup>5\<close> of the stated formula, and equal to it when no task was planned and when at least
  as many tasks were completed as planned (the cap at 100); with no pomodoro session and no focus
  time the score is an integer within \<open>1/2 + 2\<^sup>-\<^sup>4\<^sup>0\<close> of 0.35 times the stated sub-score;
  it is the nearest integer in the two exact cases, and in every case where 0.35 times the
  stated sub-score is more than \<open>2\<^sup>-\<^sup>4\<^sup>0\<close> away from every half-integer. Closer to a
  half-integer than that, it may be either neighbour. The two examples return 35 and 14.
\<close>

theorem task_subscore_amended:
  assumes "0 < tc"
  shows "(\<exists>s. (if 0 < tp then completionRate (num tp) (num tc) else taskScore (num tc)) = Num s
             \<and> 0 \<le> s \<and> s \<le> 100 \<and> \<bar>s - task_subscore_spec tp tc\<bar> \<le> 1 / 2 ^ 45
             \<and> (if tp \<le> tc then s = task_subscore_spec tp tc else True))
       \<and> (\<exists>k. efficiency_of tp tc 0 0 = Num (of_int k)
             \<and> \<bar>of_int k - 35 / 100 * task_subscore_spec tp tc\<bar> \<le> 1 / 2 + 1 / 2 ^ 40
             \<and> (if tp \<le> tc then k = round_nearest (35 / 100 * task_subscore_spec tp tc) else True)
             \<and> (if 1 / 2 ^ 40 < frac (35 / 100 * task_subscore_spec tp tc + 1 / 2)
                    \<and> frac (35 / 100 * task_subscore_spec tp tc + 1 / 2) < 1 - 1 / 2 ^ 40
                 then k = round_nearest (35 / 100 * task_subscore_spec tp tc) else True))
       \<and> efficiency_of 10 12 0 0 = Num 35 \<and> efficiency_of 0 2 0 0 = Num 14"
proof (intro conjI)
  let ?T = "if 0 < tp then completionRate (num tp) (num tc) else taskScore (num tc)"
  have cap: "?T = Num (task_subscore_spec tp tc)
      \<and> (tp = 0 \<and> tc < 5 \<or> task_subscore_spec tp tc = 100)"
    if le: "tp \<le> tc"
  proof (cases "0 < tp")
    case True
    then have "(1::rat) \<le> of_nat tc / of_nat tp" using le by simp
    then have "(100::rat) \<le> 100 * (of_nat tc / of_nat tp)" by linarith
    then have "min 100 (100 * of_nat tc / of_nat tp) = (100::rat)" by simp
    then show ?thesis using True le assms
      by (simp add: completionRate_capped task_subscore_spec_def)
  next
    case False
    then show ?thesis using assms by (auto simp: taskScore_exact task_subscore_spec_def min_def)
  qed
  from task_sub [OF assms, of tp] obtain s where s: "?T = Num s" "0 \<le> s" "s \<le> 100"
    "\<bar>s - task_subscore_spec tp tc\<bar> \<le> 1 / 2 ^ 45" by blast
  have "if tp \<le> tc then s = task_subscore_spec tp tc else True" using cap s(1) by auto
  then show "\<exists>s. ?T = Num s \<and> 0 \<le> s \<and> s \<le> 100 \<and> \<bar>s - task_subscore_spec tp tc\<bar> \<le> 1 / 2 ^ 45
      \<and> (if tp \<le> tc then s = task_subscore_spec tp tc else True)"
    using s by blast
  from efficiency_of_close [of tp tc 0 0] obtain e where
    e: "efficiency_of tp tc 0 0 = Num (of_int (round_nearest e))"
       "\<bar>e - weighted_sum_spec tp tc 0 0\<bar> \<le> 1 / 2 ^ 40" by blast
  have w: "weighted_sum_spec tp tc 0 0 = 35 / 100 * task_subscore_spec tp tc"
    by (simp add: weighted_sum_spec_def pomodoro_subscore_spec_def focus_subscore_spec_def)
  have "\<bar>e - 35 / 100 * task_subscore_spec tp tc\<bar> \<le> 1 / 1099511627776" using e(2) w by simp
  then have "\<bar>of_int (round_nearest e) - 35 / 100 * task_subscore_spec tp tc\<bar>
      \<le> 1 / 2 + 1 / 1099511627776"
    using round_nearest_within [of e] by linarith
  then have close: "\<bar>of_int (round_nearest e) - 35 / 100 * task_subscore_spec tp tc\<bar>
      \<le> 1 / 2 + 1 / 2 ^ 40" by simp
  have exact: "round_nearest e = round_nearest (35 / 100 * task_subscore_spec tp tc)" if le: "tp \<le> tc"
  proof -
    from cap [OF le] consider "tc < 5" "tp = 0" | "?T = Num 100" "task_subscore_spec tp tc = 100"
      by auto
    then have "efficiency_of tp tc 0 0
        = Num (of_int (round_nearest (35 / 100 * task_subscore_spec tp tc)))"
    proof cases
      case 1
      then consider "tc = 1" | "tc = 2" | "tc = 3" | "tc = 4" using assms by linarith
      then show ?thesis
      proof cases
        case 1
        have "efficiency_of 0 1 0 0 = Num (of_int (round_nearest (35 / 100 * task_subscore_spec 0 1)))"
          by code_simp
        then show ?thesis using 1 \<open>tp = 0\<close> by simp
      next
        case 2
        have "efficiency_of 0 2 0 0 = Num (of_int (round_nearest (35 / 100 * task_subscore_spec 0 2)))"
          by code_simp
        then show ?thesis using 2 \<open>tp = 0\<close> by simp
      next
        case 3
        have "efficiency_of 0 3 0 0 = Num (of_int (round_nearest (35 / 100 * task_subscore_spec 0 3)))"
          by code_simp
        then show ?thesis using 3 \<open>tp = 0\<close> by simp
      next
        case 4
        have "efficiency_of 0 4 0 0 = Num (of_int (round_nearest (35 / 100 * task_subscore_spec 0 4)))"
          by code_simp
        then show ?thesis using 4 \<open>tp = 0\<close> by simp
      qed
    next
      case 2
      have "round_nearest (35 / 100 * 100) = 35" by code_simp
      then show ?thesis
        unfolding efficiency_of_task_only [OF assms] 2 weighted_values by simp
    qed
    then show ?thesis using e(1) by simp
  qed
  have stable: "round_nearest e = round_nearest (35 / 100 * task_subscore_spec tp tc)"
    if "1 / 2 ^ 40 < frac (35 / 100 * task_subscore_spec tp tc + 1 / 2)
        \<and> frac (35 / 100 * task_subscore_spec tp tc + 1 / 2) < 1 - 1 / 2 ^ 40"
  proof -
    have "\<bar>e - 35 / 100 * task_subscore_spec tp tc\<bar> \<le> 1 / 2 ^ 40" using e(2) w by simp
    then show ?thesis using that by (intro round_nearest_stable [of _ _ "1 / 2 ^ 40"]) simp_all
  qed
  show "\<exists>k. efficiency_of tp tc 0 0 = Num (of_int k)
      \<and> \<bar>of_int k - 35 / 100 * task_subscore_spec tp tc\<bar> \<le> 1 / 2 + 1 / 2 ^ 40
      \<and> (if tp \<le> tc then k = round_nearest (35 / 100 * task_subscore_spec tp tc) else True)
      \<and> (if 1 / 2 ^ 40 < frac (35 / 100 * task_subscore_spec tp tc + 1 / 2)
             \<and> frac (35 / 100 * task_subscore_spec tp tc + 1 / 2) < 1 - 1 / 2 ^ 40
          then k = round_nearest (35 / 100 * task_subscore_spec tp tc) else True)"
    using e(1) close exact stable by (intro exI [of _ "round_nearest e"]) simp
  show "efficiency_of 10 12 0 0 = Num 35" by code_simp
  show "efficiency_of 0 2 0 0 = Num 14" by code_simp
qed

theorem task_subscore_amended_witness:
  "((0::nat) < 12
    \<and> (\<exists>s. (if (0::nat) < 10 then completionRate (num 10) (num 12) else taskScore (num 12)) = Num s
          \<and> s = task_subscore_spec 10 12)
    \<and> (\<exists>k. efficiency_of 10 12 0 0 = Num (of_int k)
          \<and> k = round_nearest (35 / 100 * task_subscore_spec 10 12)))
   \<and> ((0::nat) < 1
    \<and> 1 / 2 ^ 40 < frac (35 / 100 * task_subscore_spec 3 1 + 1 / 2)
    \<and> frac (35 / 100 * task_subscore_spec 3 1 + 1 / 2) < 1 - 1 / 2 ^ 40
    \<and> (\<exists>s. (if (0::nat) < 3 then completionRate (num 3) (num 1) else taskScore (num 1)) = Num s
          \<and> \<bar>s - task_subscore_spec 3 1\<bar> \<le> 1 / 2 ^ 45)
    \<and> (\<exists>k. efficiency_of 3 1 0 0 = Num (of_int k) \<and> k = 12
          \<and> k = round_nearest (35 / 100 * task_subscore_spec 3 1)))"
proof -
  have h: "(0::nat) < 12" by simp
  have h': "(0::nat) < 1" by simp
  have "1 / 1099511627776 < frac (35 / 100 * task_subscore_spec 3 1 + 1 / 2)
      \<and> frac (35 / 100 * task_subscore_spec 3 1 + 1 / 2) < 1 - 1 / 1099511627776"
    by code_simp
  then have off: "1 / 2 ^ 40 < frac (35 / 100 * task_subscore_spec 3 1 + 1 / 2)
      \<and> frac (35 / 100 * task_subscore_spec 3 1 + 1 / 2) < 1 - 1 / 2 ^ 40" by simp
  have r: "round_nearest (35 / 100 * task_subscore_spec 3 1) = 12" by code_simp
  have 1: "(0::nat) < 12
    \<and> (\<exists>s. (if (0::nat) < 10 then completionRate (num 10) (num 12) else taskScore (num 12)) = Num s
          \<and> s = task_subscore_spec 10 12)
    \<and> (\<exists>k. efficiency_of 10 12 0 0 = Num (of_int k)
          \<and> k = round_nearest (35 / 100 * task_subscore_spec 10 12))"
    using task_subscore_amended [OF h, of 10] h by auto
  have 2: "(\<exists>s. (if (0::nat) < 3 then completionRate (num 3) (num 1) else taskScore (num 1)) = Num s
          \<and> \<bar>s - task_subscore_spec 3 1\<bar> \<le> 1 / 2 ^ 45)
    \<and> (\<exists>k. efficiency_of 3 1 0 0 = Num (of_int k) \<and> k = 12
          \<and> k = round_nearest (35 / 100 * task_subscore_spec 3 1))"
    using task_subscore_amended [OF h', of 3] off r by auto
  from 1 2 h' off show ?thesis by blast
qed

lemma pomodoro_only_table:
  "Math_round (Math_min (Num 100) (Math_max (Num 0) (num_add (Num 0)
       (num_mul (pomodoroScore (num 1)) (literal (35 / 100))))))
     = Num (of_int (round_nearest (35 / 100 * pomodoro_subscore_spec 1)))"
  "Math_round (Math_min (Num 100) (Math_max (Num 0) (num_add (Num 0)
       (num_mul (pomodoroScore (num 2)) (literal (35 / 100))))))
     = Num (of_int (round_nearest (35 / 100 * pomodoro_subscore_spec 2)))"
  "Math_round (Math_min (Num 100) (Math_max (Num 0) (num_add (Num 0)
       (num_mul (pomodoroScore (num 3)) (literal (35 / 100))))))
     = Num (of_int (round_nearest (35 / 100 * pomodoro_subscore_spec 3)))"
  "Math_round (Math_min (Num 100) (Math_max (Num 0) (num_add (Num 0)
       (num_mul (pomodoroScore (num 4)) (literal (35 / 100))))))
     = Num (of_int (round_nearest (35 / 100 * pomodoro_subscore_spec 4)))"
  "Math_round (Math_min (Num 100) (Math_max (Num 0) (num_add (Num 0)
       (num_mul (pomodoroScore (num 5)) (literal (35 / 100))))))
     = Num (of_int (round_nearest (35 / 100 * pomodoro_subscore_spec 5)))"
  "Math_round (Math_min (Num 100) (Math_max (Num 0) (num_add (Num 0)
       (num_mul (pomodoroScore (num 6)) (literal (35 / 100))))))
     = Num (of_int (round_nearest (35 / 100 * pomodoro_subscore_spec 6)))"
  "Math_round (Math_min (Num 100) (Math_max (Num 0) (num_add (Num 0)
       (num_mul (pomodoroScore (num 7)) (literal (35 / 100))))))
     = Num (of_int (round_nearest (35 / 100 * pomodoro_subscore_spec 7)))"
  "Math_round (Math_min (Num 100) (Math_max (Num 0) (num_add (Num 0)
       (num_mul (pomodoroScore (num 8)) (literal (35 / 100))))))
     = Num (of_int (round_nearest (35 / 100 * pomodoro_subscore_spec 8)))"
  "Math_round (Math_min (Num 100) (Math_max (Num 0) (num_add (Num 0)
       (num_mul (pomodoroScore (num 9)) (literal (35 / 100))))))
     = Num (of_int (round_nearest (35 / 100 * pomodoro_subscore_spec 9)))"
  "Math_round (Math_min (Num 100) (Math_max (Num 0) (num_add (Num 0)
       (num_mul (pomodoroScore (num 10)) (literal (35 / 100))))))
     = Num (of_int (round_nearest (35 / 100 * pomodoro_subscore_spec 10)))"
  "Math_round (Math_min (Num 100) (Math_max (Num 0) (num_add (Num 0)
       (num_mul (pomodoroScore (num 11)) (literal (35 / 100))))))
     = Num (of_int (round_nearest (35 / 100 * pomodoro_subscore_spec 11)))"
  "Math_round (Math_min (Num 100) (Math_max (Num 0) (num_add (Num 0)
       (num_mul (pomodoroScore (num 12)) (literal (35 / 100))))))
     = Num (of_int (31))"
  "Math_round (Math_min (Num 100) (Math_max (Num 0) (num_add (Num 0)
       (num_mul (pomodoroScore (num 13)) (literal (35 / 100))))))
     = Num (of_int (round_nearest (35 / 100 * pomodoro_subscore_spec 13)))"
  "Math_round (Math_min (Num 100) (Math_max (Num 0) (num_add (Num 0)
       (num_mul (pomodoroScore (num 14)) (literal (35 / 100))))))
     = Num (of_int (round_nearest (35 / 100 * pomodoro_subscore_spec 14)))"
  "Math_round (Math_min (Num 100) (Math_max (Num 0) (num_add (Num 0)
       (num_mul (pomodoroScore (num 15)) (literal (35 / 100))))))
     = Num (of_int (round_nearest (35 / 100 * pomodoro_subscore_spec 15)))"
  "Math_round (Math_min (Num 100) (Math_max (Num 0) (num_add (Num 0)
       (num_mul (pomodoroScore (num 16)) (literal (35 / 100))))))
     = Num (of_int (round_nearest (35 / 100 * pomodoro_subscore_spec 16)))"
  by code_simp+

lemma efficiency_of_pomodoro_table:
  "efficiency_of tp 0 1 0
     = Num (of_int (round_nearest (35 / 100 * pomodoro_subscore_spec 1)))"
  "efficiency_of tp 0 2 0
     = Num (of_int (round_nearest (35 / 100 * pomodoro_subscore_spec 2)))"
  "efficiency_of tp 0 3 0
     = Num (of_int (round_nearest (35 / 100 * pomodoro_subscore_spec 3)))"
  "efficiency_of tp 0 4 0
     = Num (of_int (round_nearest (35 / 100 * pomodoro_subscore_spec 4)))"
  "efficiency_of tp 0 5 0
     = Num (of_int (round_nearest (35 / 100 * pomodoro_subscore_spec 5)))"
  "efficiency_of tp 0 6 0
     = Num (of_int (round_nearest (35 / 100 * pomodoro_subscore_spec 6)))"
  "efficiency_of tp 0 7 0
     = Num (of_int (round_nearest (35 / 100 * pomodoro_subscore_spec 7)))"
  "efficiency_of tp 0 8 0
     = Num (of_int (round_nearest (35 / 100 * pomodoro_subscore_spec 8)))"
  "efficiency_of tp 0 9 0
     = Num (of_int (round_nearest (35 / 100 * pomodoro_subscore_spec 9)))"
  "efficiency_of tp 0 10 0
     = Num (of_int (round_nearest (35 / 100 * pomodoro_subscore_spec 10)))"
  "efficiency_of tp 0 11 0
     = Num (of_int (round_nearest (35 / 100 * pomodoro_subscore_spec 11)))"
  "efficiency_of tp 0 12 0
     = Num (of_int (31))"
  "efficiency_of tp 0 13 0
     = Num (of_int (round_nearest (35 / 100 * pomodoro_subscore_spec 13)))"
  "efficiency_of tp 0 14 0
     = Num (of_int (round_nearest (35 / 100 * pomodoro_subscore_spec 14)))"
  "efficiency_of tp 0 15 0
     = Num (of_int (round_nearest (35 / 100 * pomodoro_subscore_spec 15)))"
  "efficiency_of tp 0 16 0
     = Num (of_int (round_nearest (35 / 100 * pomodoro_subscore_spec 16)))"
  by (subst efficiency_of_pomodoro_only, simp, simp only: pomodoro_only_table)+

text \<open>
  C5, as the claim states it: with no completed task and no focus time the score is the nearest
  integer to 0.35 times the pomodoro sub-score. Twelve sessions give the sub-score 90 and
  0.35 \<times> 90 = 31.5, whose nearest integer is 32; the code returns 31.
\<close>

theorem pomodoro_subscore_counterexample:
  "pomodoroScore (num 12) = Num 90
   \<and> efficiency_of 0 0 12 0 = Num 31
   \<and> round_nearest (35 / 100 * pomodoro_subscore_spec 12) = 32
   \<and> efficiency_of 0 0 12 0
       \<noteq> Num (of_int (round_nearest (35 / 100 * pomodoro_subscore_spec 12)))"
  by code_simp

text \<open>
  C5, amended. For every positive number of sessions the pomodoro sub-score of the code is
  within \<open>2\<^sup>-\<^sup>4\<^sup>5\<close> of the stated formula, equal to it from 6 sessions on, and at least 70
  above 10 sessions. With no completed task and no focus time the score is the nearest integer
  to 0.35 times the stated sub-score for every number of sessions but 12, where it is 31.
  Fifteen sessions return 26.
\<close>

theorem pomodoro_subscore_amended:
  assumes "0 < p"
  shows "(\<exists>s. pomodoroScore (num p) = Num s \<and> 0 \<le> s \<and> s \<le> 100
             \<and> \<bar>s - pomodoro_subscore_spec p\<bar> \<le> 1 / 2 ^ 45
             \<and> (if 6 \<le> p then s = pomodoro_subscore_spec p else True)
             \<and> (if 10 < p then 70 \<le> s else True))
       \<and> efficiency_of tp 0 p 0
           = Num (of_int (if p = 12 then 31
                          else round_nearest (35 / 100 * pomodoro_subscore_spec p)))
       \<and> efficiency_of 0 0 15 0 = Num 26"
proof (intro conjI)
  from pomodoro_sub [OF assms] obtain s where s: "pomodoroScore (num p) = Num s" "0 \<le> s"
    "s \<le> 100" "\<bar>s - pomodoro_subscore_spec p\<bar> \<le> 1 / 2 ^ 45" by blast
  have "s = pomodoro_subscore_spec p" if "6 \<le> p"
    using pomodoroScore_exact [OF that] s(1) by simp
  moreover have "70 \<le> pomodoro_subscore_spec p" if "10 < p"
    using that by (simp add: pomodoro_subscore_spec_def)
  ultimately have "(if 6 \<le> p then s = pomodoro_subscore_spec p else True)
      \<and> (if 10 < p then 70 \<le> s else True)" by auto
  then show "\<exists>s. pomodoroScore (num p) = Num s \<and> 0 \<le> s \<and> s \<le> 100
      \<and> \<bar>s - pomodoro_subscore_spec p\<bar> \<le> 1 / 2 ^ 45
      \<and> (if 6 \<le> p then s = pomodoro_subscore_spec p else True)
      \<and> (if 10 < p then 70 \<le> s else True)"
    using s by blast
  show "efficiency_of tp 0 p 0
      = Num (of_int (if p = 12 then 31 else round_nearest (35 / 100 * pomodoro_subscore_spec p)))"
  proof (cases "17 \<le> p")
    case True
    then have "100 - 5 * (of_nat p - 10) \<le> (70::rat)" by simp
    then have "pomodoro_subscore_spec p = 70" using True by (simp add: pomodoro_subscore_spec_def)
    moreover have "round_nearest (35 / 100 * 70) = 25" by code_simp
    ultimately show ?thesis
      unfolding efficiency_of_pomodoro_only [OF assms] pomodoroScore_floor [OF True] weighted_values
      using True by simp
  next
    case False
    then consider "p \<le> 6" | "7 \<le> p" "p \<le> 12" | "13 \<le> p" "p \<le> 16" by linarith
    then show ?thesis
    proof cases
      case 1
      then consider "p = 1" | "p = 2" | "p = 3" | "p = 4" | "p = 5" | "p = 6"
        using assms by linarith
      then show ?thesis
      proof cases
        case 1
        then show ?thesis using efficiency_of_pomodoro_table(1) [of tp] by simp
      qed (simp_all add: efficiency_of_pomodoro_table)
    next
      case 2
      then consider "p = 7" | "p = 8" | "p = 9" | "p = 10" | "p = 11" | "p = 12" by linarith
      then show ?thesis
        by cases (simp_all add: efficiency_of_pomodoro_table)
    next
      case 3
      then consider "p = 13" | "p = 14" | "p = 15" | "p = 16" by linarith
      then show ?thesis
        by cases (simp_all add: efficiency_of_pomodoro_table)
    qed
  qed
  show "efficiency_of 0 0 15 0 = Num 26" by code_simp
qed

theorem pomodoro_subscore_amended_witness:
  "(0::nat) < 15
   \<and> (\<exists>s. pomodoroScore (num 15) = Num s \<and> s = pomodoro_subscore_spec 15 \<and> 70 \<le> s)
   \<and> efficiency_of 7 0 15 0 = Num (of_int (round_nearest (35 / 100 * pomodoro_subscore_spec 15)))"
proof -
  have h: "(0::nat) < 15" by simp
  from pomodoro_subscore_amended [OF h, of 7] h show ?thesis by auto
qed

text \<open>
  C6, as the claim states it: the score is the exact weighted sum of the three stated
  sub-scores, clamped to [0,100] and rounded to the nearest integer. Fourteen focus minutes give
  the sub-score 100 \<times> 14 / 120 and 0.30 times it is 3.5, whose nearest integer is 4; the
  code returns 3.
\<close>

theorem focus_subscore_counterexample:
  "efficiency_of 0 0 0 14 = Num 3
   \<and> calculateEfficiency_spec 0 0 0 14 = 4
   \<and> efficiency_of 0 0 0 14 \<noteq> Num (of_int (calculateEfficiency_spec 0 0 0 14))"
  by code_simp

text \<open>
  C6, amended. For every positive number of focus minutes the focus sub-score of the code is
  within \<open>2\<^sup>-\<^sup>4\<^sup>5\<close> of the stated formula, equal to it from 120 to 360 minutes and from 760
  minutes on, and at least 80 above 360 minutes. For every input the score is an integer
  between 0 and 100 within \<open>1/2 + 2\<^sup>-\<^sup>4\<^sup>0\<close> of the exact weighted sum of the three stated
  sub-scores, clamped to [0,100]. The example returns 100.
\<close>

theorem focus_subscore_amended:
  assumes "0 < f"
  shows "(\<exists>s. focusScore (num f) = Num s \<and> 0 \<le> s \<and> s \<le> 100
             \<and> \<bar>s - focus_subscore_spec f\<bar> \<le> 1 / 2 ^ 45
             \<and> (if 120 \<le> f \<and> f \<le> 360 \<or> 760 \<le> f then s = focus_subscore_spec f else True)
             \<and> (if 360 < f then 80 \<le> s else True))
       \<and> (\<exists>k. efficiency_of tp tc p f = Num (of_int k) \<and> 0 \<le> k \<and> k \<le> 100
             \<and> \<bar>of_int k - min 100 (max 0 (weighted_sum_spec tp tc p f))\<bar> \<le> 1 / 2 + 1 / 2 ^ 40)
       \<and> efficiency_of 4 4 8 240 = Num 100"
proof (intro conjI)
  from focus_sub [OF assms] obtain s where s: "focusScore (num f) = Num s" "0 \<le> s"
    "s \<le> 100" "\<bar>s - focus_subscore_spec f\<bar> \<le> 1 / 2 ^ 45" by blast
  have 1: "s = focus_subscore_spec f" if "120 \<le> f \<and> f \<le> 360"
    using that s(1) by (simp add: focusScore_ideal focus_subscore_spec_def)
  have 2: "s = focus_subscore_spec f \<and> 80 \<le> s" if "760 \<le> f"
  proof -
    have "100 - 3 * ((of_nat f - 360) / 60) \<le> (80::rat)" using that by simp
    then show ?thesis using that s(1) by (simp add: focusScore_floor focus_subscore_spec_def)
  qed
  have 3: "80 \<le> s" if "360 < f" "f < 760"
    using focusScore_high [OF that] s(1) by auto
  have "(if 120 \<le> f \<and> f \<le> 360 \<or> 760 \<le> f then s = focus_subscore_spec f else True)
      \<and> (if 360 < f then 80 \<le> s else True)"
    using 1 2 3 by (cases "f < 760") auto
  then show "\<exists>s. focusScore (num f) = Num s \<and> 0 \<le> s \<and> s \<le> 100
      \<and> \<bar>s - focus_subscore_spec f\<bar> \<le> 1 / 2 ^ 45
      \<and> (if 120 \<le> f \<and> f \<le> 360 \<or> 760 \<le> f then s = focus_subscore_spec f else True)
      \<and> (if 360 < f then 80 \<le> s else True)"
    using s by blast
  from efficiency_of_close [of tp tc p f] obtain e where
    e: "efficiency_of tp tc p f = Num (of_int (round_nearest e))" "0 \<le> e" "e \<le> 100"
       "\<bar>e - weighted_sum_spec tp tc p f\<bar> \<le> 1 / 2 ^ 40" by blast
  have "\<bar>e - weighted_sum_spec tp tc p f\<bar> \<le> 1 / 1099511627776" using e(4) by simp
  then have "\<bar>of_int (round_nearest e) - min 100 (max 0 (weighted_sum_spec tp tc p f))\<bar>
      \<le> 1 / 2 + 1 / 1099511627776"
    using round_nearest_within [of e] e(2,3) by linarith
  then have "\<bar>of_int (round_nearest e) - min 100 (max 0 (weighted_sum_spec tp tc p f))\<bar>
      \<le> 1 / 2 + 1 / 2 ^ 40" by simp
  then show "\<exists>k. efficiency_of tp tc p f = Num (of_int k) \<and> 0 \<le> k \<and> k \<le> 100
      \<and> \<bar>of_int k - min 100 (max 0 (weighted_sum_spec tp tc p f))\<bar> \<le> 1 / 2 + 1 / 2 ^ 40"
    using e(1) round_nearest_range [OF e(2,3)] by blast
  show "efficiency_of 4 4 8 240 = Num 100" by code_simp
qed

theorem focus_subscore_amended_witness:
  "(0::nat) < 240
   \<and> (\<exists>s. focusScore (num 240) = Num s \<and> s = focus_subscore_spec 240)
   \<and> (\<exists>k. efficiency_of 4 4 8 240 = Num (of_int k) \<and> 0 \<le> k \<and> k \<le> 100)"
proof -
  have h: "(0::nat) < 240" by simp
  from focus_subscore_amended [OF h, of 4 4 8] h show ?thesis by auto
qed

lemma pomodoro_contributions:
  "num_mul (pomodoroScore (num 10)) (literal (35 / 100)) = Num 35"
  "num_mul (pomodoroScore (num 11)) (literal (35 / 100)) = Num (133 / 4)"
  "num_mul (pomodoroScore (num 12)) (literal (35 / 100))
     = Num (8866461766385663 / 281474976710656)"
  "num_mul (pomodoroScore (num 13)) (literal (35 / 100))
     = Num (8373880557142015 / 281474976710656)"
  "num_mul (pomodoroScore (num 14)) (literal (35 / 100)) = Num 28"
  by code_simp+

lemma pomodoro_scores:
  "efficiency_of 0 0 3 0 = Num 18" "efficiency_of 0 0 4 0 = Num 23"
  "efficiency_of 0 0 5 0 = Num 29" "efficiency_of 0 0 6 0 = Num 35"
  "efficiency_of 0 0 10 0 = Num 35" "efficiency_of 0 0 11 0 = Num 33"
  "efficiency_of 0 0 12 0 = Num 31" "efficiency_of 0 0 13 0 = Num 30"
  "efficiency_of 0 0 14 0 = Num 28"
  by code_simp+

text \<open>
  C7. With no planned task, no completed task and no focus time: the score strictly increases
  with the number of sessions from 3 to 6; the pomodoro sub-score is 100 for every number of
  sessions from 6 to 10; and from 10 to 14 sessions the weighted pomodoro contribution strictly
  decreases while the score stays at or above 0.35 \<times> 70, the other contributions being 0.
\<close>

theorem pomodoro_monotonicity:
  "(3 \<le> p \<and> p < q \<and> q \<le> 6 \<longrightarrow> num_less (efficiency_of 0 0 p 0) (efficiency_of 0 0 q 0))
   \<and> (6 \<le> r \<and> r \<le> 10 \<longrightarrow> pomodoroScore (num r) = Num 100)
   \<and> (10 \<le> m \<and> m < n \<and> n \<le> 14 \<longrightarrow>
         num_less (num_mul (pomodoroScore (num n)) (literal (35 / 100)))
                  (num_mul (pomodoroScore (num m)) (literal (35 / 100)))
         \<and> \<not> num_less (efficiency_of 0 0 n 0) (Num (35 / 100 * 70))
         \<and> \<not> num_less (efficiency_of 0 0 m 0) (Num (35 / 100 * 70)))"
proof (intro conjI impI)
  assume a: "3 \<le> p \<and> p < q \<and> q \<le> 6"
  then consider "p = 3" | "p = 4" | "p = 5" by linarith
  then show "num_less (efficiency_of 0 0 p 0) (efficiency_of 0 0 q 0)"
  proof cases
    case 1
    with a consider "q = 4" | "q = 5" | "q = 6" by linarith
    then show ?thesis using 1 by cases (simp_all add: pomodoro_scores)
  next
    case 2
    with a consider "q = 5" | "q = 6" by linarith
    then show ?thesis using 2 by cases (simp_all add: pomodoro_scores)
  next
    case 3
    with a have "q = 6" by linarith
    with 3 show ?thesis by (simp add: pomodoro_scores)
  qed
next
  assume "6 \<le> r \<and> r \<le> 10"
  then show "pomodoroScore (num r) = Num 100" by (simp add: pomodoroScore_ideal)
next
  assume a: "10 \<le> m \<and> m < n \<and> n \<le> 14"
  then consider "m = 10" | "m = 11" | "m = 12" | "m = 13" by linarith
  then show "num_less (num_mul (pomodoroScore (num n)) (literal (35 / 100)))
                  (num_mul (pomodoroScore (num m)) (literal (35 / 100)))"
  proof cases
    case 1
    with a consider "n = 11" | "n = 12" | "n = 13" | "n = 14" by linarith
    then show ?thesis using 1 by cases (simp_all only: pomodoro_contributions, simp_all)
  next
    case 2
    with a consider "n = 12" | "n = 13" | "n = 14" by linarith
    then show ?thesis using 2 by cases (simp_all only: pomodoro_contributions, simp_all)
  next
    case 3
    with a consider "n = 13" | "n = 14" by linarith
    then show ?thesis using 3 by cases (simp_all only: pomodoro_contributions, simp_all)
  next
    case 4
    with a have "n = 14" by linarith
    with 4 show ?thesis by (simp only: pomodoro_contributions, simp)
  qed
next
  assume a: "10 \<le> m \<and> m < n \<and> n \<le> 14"
  then consider "n = 11" | "n = 12" | "n = 13" | "n = 14" by linarith
  then show "\<not> num_less (efficiency_of 0 0 n 0) (Num (35 / 100 * 70))"
    by cases (simp_all add: pomodoro_scores)
next
  assume a: "10 \<le> m \<and> m < n \<and> n \<le> 14"
  then consider "m = 10" | "m = 11" | "m = 12" | "m = 13" by linarith
  then show "\<not> num_less (efficiency_of 0 0 m 0) (Num (35 / 100 * 70))"
    by cases (simp_all add: pomodoro_scores)
qed

theorem pomodoro_monotonicity_witness:
  "num_less (efficiency_of 0 0 3 0) (efficiency_of 0 0 4 0)
   \<and> pomodoroScore (num 8) = Num 100
   \<and> num_less (num_mul (pomodoroScore (num 14)) (literal (35 / 100)))
               (num_mul (pomodoroScore (num 10)) (literal (35 / 100)))
   \<and> \<not> num_less (efficiency_of 0 0 14 0) (Num (35 / 100 * 70))"
  using pomodoro_monotonicity [of 3 4 8 10 14] by simp

text \<open>
  C3. With no completed task, no pomodoro session and no focus minute the score is exactly 0,
  whatever the number of planned tasks, also when \<^verbatim>\<open>tasksPlanned\<close> is left to its default.
\<close>

theorem calculateEfficiency_no_activity:
  "efficiency_of tp 0 0 0 = Num 0
   \<and> calculateEfficiency \<lparr>tasksPlanned = None, tasksCompleted = num 0,
        pomodorosSessions = num 0, focusTime = num 0\<rparr> = Num 0
   \<and> efficiency_of 0 0 0 0 = Num 0"
  by (simp add: efficiency_of_def calculateEfficiency_def num_def)

text \<open>
  C10. The score is not monotone non-increasing in the number of planned tasks: one completed
  task scores 7 when no task was planned and 35 when that one task was planned.
\<close>

theorem calculateEfficiency_planned_discontinuity:
  "efficiency_of 0 1 0 0 = Num 7 \<and> efficiency_of 1 1 0 0 = Num 35
   \<and> num_less (efficiency_of 0 1 0 0) (efficiency_of 1 1 0 0)"
  by code_simp

end
